(* ===== verification/Prelude.thy ===== *)
theory Prelude
  imports Main "HOL-Library.Word" "HOL-Library.Code_Target_Nat"
begin

text \<open>
  Shared vocabulary of the development: the types that stand for the C++ types of the server
  (\<open>char\<close>, \<open>std::vector<char>\<close>, \<open>size_t\<close>, \<open>ssize_t\<close>, exceptions), the
  64-bit arithmetic of \<open>size_t\<close> with its wrap-around written out, and the list lemmas on
  which the buffer and stream components rest.

  A \<open>size_t\<close> is a natural number below \<open>2 ^ 64\<close>; every operation of the source that can
  leave this range goes through \<open>sz_add\<close>, \<open>sz_sub\<close> or \<open>sz_mul\<close>. An
  \<open>ssize_t\<close> is an \<open>int\<close>; \<open>ssize_of\<close> is the cast from \<open>size_t\<close>. Template
  parameters that range over integral types are \<open>'a word\<close>.
\<close>

named_theorems sz_simps \<open>64-bit size arithmetic inside its range\<close>
named_theorems put_simps \<open>reading a list after writing a run of elements into it\<close>

section \<open>Types\<close>

type_synonym byte = char
type_synonym buf = "byte list"
type_synonym u16 = "16 word"
type_synonym path = string

abbreviation NUL :: byte where
  "NUL \<equiv> CHR 0x00"

text \<open>
  The ways an operation does not return: the standard exceptions the code throws or lets
  escape, and \<open>Undefined\<close> for an access the C++ standard gives no meaning to (an iterator
  range whose end precedes its begin, a write past the end of a buffer, a null pointer).
\<close>

datatype exn =
    Invalid_argument
  | Out_of_range
  | Runtime_error
  | Ios_failure
  | Filesystem_error
  | Undefined

type_synonym 'a res = "exn + 'a"

fun is_ok :: "'a res \<Rightarrow> bool" where
  "is_ok (Inl _) = False"
| "is_ok (Inr _) = True"

section \<open>Arithmetic of \<open>size_t\<close> and \<open>ssize_t\<close>\<close>

definition sz_add :: "nat \<Rightarrow> nat \<Rightarrow> nat" where
  "sz_add a b = (a + b) mod 2 ^ 64"

definition sz_sub :: "nat \<Rightarrow> nat \<Rightarrow> nat" where
  "sz_sub a b = (a + (2 ^ 64 - b mod 2 ^ 64)) mod 2 ^ 64"

definition sz_mul :: "nat \<Rightarrow> nat \<Rightarrow> nat" where
  "sz_mul a b = (a * b) mod 2 ^ 64"

definition ssize_of :: "nat \<Rightarrow> int" where
  "ssize_of n = (if n mod 2 ^ 64 < 2 ^ 63 then int (n mod 2 ^ 64)
                 else int (n mod 2 ^ 64) - 2 ^ 64)"

definition size_of :: "int \<Rightarrow> nat" where
  "size_of i = nat (i mod 2 ^ 64)"

lemma sz_add_less [simp]: "sz_add a b < 2 ^ 64"
  by (simp add: sz_add_def)

lemma sz_add_exact [sz_simps]: "a + b < 2 ^ 64 \<Longrightarrow> sz_add a b = a + b"
  by (simp add: sz_add_def)

lemma sz_mul_exact [sz_simps]: "a * b < 2 ^ 64 \<Longrightarrow> sz_mul a b = a * b"
  by (simp add: sz_mul_def)

lemma sz_sub_exact [sz_simps]:
  assumes "b \<le> a" "a < 2 ^ 64"
  shows "sz_sub a b = a - b"
proof -
  from assms have "b mod 2 ^ 64 = b" by simp
  moreover from assms have "a + (2 ^ 64 - b) = (a - b) + 2 ^ 64" by linarith
  ultimately show ?thesis using assms by (simp only: sz_sub_def mod_add_self2) simp
qed

lemma sz_sub_wraps:
  assumes "a < b" "b < 2 ^ 64"
  shows "sz_sub a b = 2 ^ 64 - (b - a)"
proof -
  from assms have "b mod 2 ^ 64 = b" by simp
  moreover from assms have "a + (2 ^ 64 - b) = 2 ^ 64 - (b - a)" by linarith
  ultimately show ?thesis using assms by (simp add: sz_sub_def)
qed

lemma ssize_of_exact [sz_simps]: "n < 2 ^ 63 \<Longrightarrow> ssize_of n = int n"
  by (simp add: ssize_of_def)

lemma size_of_exact [sz_simps]: "0 \<le> i \<Longrightarrow> i < 2 ^ 64 \<Longrightarrow> size_of i = nat i"
  by (simp add: size_of_def)

section \<open>Writing a run of elements into a list\<close>

text \<open>\<open>put_at xs i ys\<close> is \<open>std::copy(ys.begin(), ys.end(), xs.begin() + i)\<close>.\<close>

definition put_at :: "'a list \<Rightarrow> nat \<Rightarrow> 'a list \<Rightarrow> 'a list" where
  "put_at xs i ys = take i xs @ ys @ drop (i + length ys) xs"

lemma length_put_at [simp]: "i + length ys \<le> length xs \<Longrightarrow> length (put_at xs i ys) = length xs"
  by (simp add: put_at_def)

lemma put_at_Nil [simp]: "put_at xs i [] = xs"
  by (simp add: put_at_def)

lemma take_put_at [put_simps]: "i \<le> length xs \<Longrightarrow> take (i + length ys) (put_at xs i ys) = take i xs @ ys"
  by (simp add: put_at_def)

lemma take_put_at_before [put_simps]: "n \<le> i \<Longrightarrow> i \<le> length xs \<Longrightarrow> take n (put_at xs i ys) = take n xs"
  by (simp add: put_at_def)

lemma drop_put_at_before [put_simps]:
  "i \<le> length xs \<Longrightarrow> drop i (put_at xs i ys) = ys @ drop (i + length ys) xs"
  by (simp add: put_at_def)

lemma take_drop_put_at [put_simps]:
  "i \<le> length xs \<Longrightarrow> take (length ys) (drop i (put_at xs i ys)) = ys"
  by (simp add: put_at_def)

lemma drop_put_at_after [put_simps]:
  "i \<le> length xs \<Longrightarrow> i + length ys \<le> n \<Longrightarrow> drop n (put_at xs i ys) = drop n xs"
  by (simp add: put_at_def)

lemma nth_put_at_other:
  assumes "i + length ys \<le> length xs" "k < i \<or> i + length ys \<le> k" "k < length xs"
  shows "put_at xs i ys ! k = xs ! k"
  using assms by (auto simp: put_at_def nth_append min_def)

lemma put_at_put_at_append:
  "i \<le> length xs \<Longrightarrow> put_at (put_at xs i ys) (i + length ys) zs = put_at xs i (ys @ zs)"
  by (simp add: put_at_def ac_simps)

section \<open>Strings inside buffers\<close>

text \<open>\<open>until_zero\<close> is the prefix that \<open>std::find(\<dots>, 0)\<close> delimits.\<close>

definition until_zero :: "byte list \<Rightarrow> byte list" where
  "until_zero xs = takeWhile (\<lambda>c. c \<noteq> NUL) xs"

lemma length_until_zero: "length (until_zero xs) \<le> length xs"
  by (simp add: until_zero_def length_takeWhile_le)

lemma until_zero_no_NUL [simp]: "NUL \<notin> set (until_zero xs)"
  by (auto simp: until_zero_def dest: set_takeWhileD)

lemma until_zero_terminated [simp]: "NUL \<notin> set s \<Longrightarrow> until_zero (s @ NUL # rest) = s"
  by (induction s) (auto simp: until_zero_def)

lemma until_zero_id [simp]: "NUL \<notin> set s \<Longrightarrow> until_zero s = s"
  by (auto simp: until_zero_def takeWhile_eq_all_conv)

lemma until_zero_idem [simp]: "until_zero (until_zero s) = until_zero s"
  by simp

end
