(* ===== verification/SmBuf.thy ===== *)
theory SmBuf
  imports Prelude
begin

text \<open>
  The class \<open>SmBuf\<close> (tftpSmBuf.h, tftpSmBuf.cpp): a \<open>std::vector<char>\<close> with bounds-checked
  integer and string access. The template parameter \<open>T\<close> of \<open>raw\<close>, \<open>get_be\<close>,
  \<open>get_le\<close>, \<open>set_be\<close> and \<open>set_le\<close> is the word type \<open>'a word\<close>; \<open>sizeof(T)\<close> is
  \<open>LENGTH('a) div 8\<close>. Offsets are \<open>size_t\<close>: the sum in \<open>is_valid\<close> wraps.
\<close>

section \<open>Byte order\<close>

primrec le_bytes :: "nat \<Rightarrow> nat \<Rightarrow> byte list" where
  "le_bytes 0 v = []"
| "le_bytes (Suc n) v = char_of (v mod 256) # le_bytes n (v div 256)"

primrec le_val :: "byte list \<Rightarrow> nat" where
  "le_val [] = 0"
| "le_val (b # bs) = of_char b + 256 * le_val bs"

definition be_bytes :: "nat \<Rightarrow> nat \<Rightarrow> byte list" where
  "be_bytes n v = rev (le_bytes n v)"

definition be_val :: "byte list \<Rightarrow> nat" where
  "be_val bs = le_val (rev bs)"

lemma length_le_bytes [simp]: "length (le_bytes n v) = n"
  by (induction n arbitrary: v) auto

lemma length_be_bytes [simp]: "length (be_bytes n v) = n"
  by (simp add: be_bytes_def)

lemma of_char_less_256 [simp]: "(of_char c :: nat) < 256"
  by (metis nat_of_char_less_256)

lemma le_val_le_bytes: "le_val (le_bytes n v) = v mod 256 ^ n"
  by (induction n arbitrary: v) (simp_all add: mod_mult2_eq)

lemma le_val_less: "le_val bs < 256 ^ length bs"
proof (induction bs)
  case (Cons b bs)
  have "of_char b + 256 * le_val bs < (256 :: nat) * (le_val bs + 1)" by simp
  also have "\<dots> \<le> 256 * 256 ^ length bs" using Cons by (intro mult_le_mono) auto
  finally show ?case by simp
qed simp

lemma le_bytes_le_val: "le_bytes (length bs) (le_val bs) = bs"
proof (induction bs)
  case (Cons b bs)
  have "(of_char b + 256 * le_val bs) mod 256 = of_char b"
    by simp
  moreover have "(of_char b + 256 * le_val bs) div 256 = le_val bs"
    by simp
  ultimately show ?case using Cons by simp
qed simp

lemma be_val_be_bytes: "be_val (be_bytes n v) = v mod 256 ^ n"
  by (simp add: be_val_def be_bytes_def le_val_le_bytes)

lemma be_bytes_be_val: "be_bytes (length bs) (be_val bs) = bs"
proof -
  have "le_bytes (length (rev bs)) (le_val (rev bs)) = rev bs"
    by (rule le_bytes_le_val)
  then show ?thesis by (simp add: be_val_def be_bytes_def)
qed

lemma be_val_less: "be_val bs < 256 ^ length bs"
  using le_val_less [of "rev bs"] by (simp add: be_val_def)

section \<open>Operations\<close>

text \<open>\<open>SmBuf::is_valid\<close>: the sum of offset and size is a \<open>size_t\<close> and wraps.\<close>

definition is_valid :: "buf \<Rightarrow> nat \<Rightarrow> nat \<Rightarrow> bool" where
  "is_valid b offset t_size \<longleftrightarrow> offset < length b \<and> sz_add offset t_size \<le> length b"

definition check_offset :: "buf \<Rightarrow> nat \<Rightarrow> nat \<Rightarrow> unit res" where
  "check_offset b offset t_size =
     (if \<not> is_valid b offset t_size then Inl Invalid_argument else Inr ())"

abbreviation size_of_type :: "'a::len itself \<Rightarrow> nat" where
  "size_of_type t \<equiv> LENGTH('a) div 8"

definition is_valid_type :: "'a::len itself \<Rightarrow> buf \<Rightarrow> nat \<Rightarrow> bool" where
  "is_valid_type t b offset = is_valid b offset (size_of_type t)"

definition check_offset_type :: "'a::len itself \<Rightarrow> buf \<Rightarrow> nat \<Rightarrow> unit res" where
  "check_offset_type t b offset = check_offset b offset (size_of_type t)"

text \<open>
  \<open>raw\<close> hands out a reference into the buffer in host byte order (x86, little endian);
  reading through it and assigning to it are two operations of the model.
\<close>

definition raw_read :: "buf \<Rightarrow> nat \<Rightarrow> 'a::len word res" where
  "raw_read b offset =
     (case check_offset_type TYPE('a) b offset of
        Inl e \<Rightarrow> Inl e
      | Inr _ \<Rightarrow> Inr (of_nat (le_val (take (size_of_type TYPE('a)) (drop offset b)))))"

definition raw_assign :: "buf \<Rightarrow> nat \<Rightarrow> 'a::len word \<Rightarrow> buf res" where
  "raw_assign b offset val =
     (case check_offset_type TYPE('a) b offset of
        Inl e \<Rightarrow> Inl e
      | Inr _ \<Rightarrow> Inr (put_at b offset (le_bytes (size_of_type TYPE('a)) (unat val))))"

definition get_be :: "buf \<Rightarrow> nat \<Rightarrow> 'a::len word res" where
  "get_be b offset =
     (case check_offset_type TYPE('a) b offset of
        Inl e \<Rightarrow> Inl e
      | Inr _ \<Rightarrow>
          (let n = size_of_type TYPE('a) in
           if n = 1 \<or> n = 2 \<or> n = 4 \<or> n = 8
           then Inr (of_nat (be_val (take n (drop offset b))))
           else Inl Invalid_argument))"

definition get_le :: "buf \<Rightarrow> nat \<Rightarrow> 'a::len word res" where
  "get_le b offset =
     (case check_offset_type TYPE('a) b offset of
        Inl e \<Rightarrow> Inl e
      | Inr _ \<Rightarrow>
          (let n = size_of_type TYPE('a) in
           if n = 1 \<or> n = 2 \<or> n = 4 \<or> n = 8
           then Inr (of_nat (le_val (take n (drop offset b))))
           else Inl Invalid_argument))"

definition set_be :: "buf \<Rightarrow> nat \<Rightarrow> 'a::len word \<Rightarrow> (int \<times> buf) res" where
  "set_be b offset val =
     (case check_offset_type TYPE('a) b offset of
        Inl e \<Rightarrow> Inl e
      | Inr _ \<Rightarrow>
          (let n = size_of_type TYPE('a) in
           if n = 1 \<or> n = 2 \<or> n = 4 \<or> n = 8
           then Inr (int n, put_at b offset (be_bytes n (unat val)))
           else Inl Invalid_argument))"

definition set_le :: "buf \<Rightarrow> nat \<Rightarrow> 'a::len word \<Rightarrow> (int \<times> buf) res" where
  "set_le b offset val =
     (case check_offset_type TYPE('a) b offset of
        Inl e \<Rightarrow> Inl e
      | Inr _ \<Rightarrow>
          (let n = size_of_type TYPE('a) in
           if n = 1 \<or> n = 2 \<or> n = 4 \<or> n = 8
           then Inr (int n, put_at b offset (le_bytes n (unat val)))
           else Inl Invalid_argument))"

text \<open>
  \<open>get_string\<close>: a length of 0 means "up to the end of the buffer". The check accepts a
  wrapped sum, and then \<open>cbegin()+offset+buf_len\<close> lies before \<open>cbegin()+offset\<close>: the
  range handed to \<open>std::find\<close> is not a range.
\<close>

definition get_string :: "buf \<Rightarrow> nat \<Rightarrow> nat \<Rightarrow> string res" where
  "get_string b offset buf_len =
     (case check_offset b offset buf_len of
        Inl e \<Rightarrow> Inl e
      | Inr _ \<Rightarrow>
          (let curr_end = (if buf_len > 0 then offset + buf_len else length b) in
           if curr_end \<le> length b
           then Inr (until_zero (take (curr_end - offset) (drop offset b)))
           else Inl Undefined))"

definition set_string :: "buf \<Rightarrow> nat \<Rightarrow> string \<Rightarrow> bool \<Rightarrow> (int \<times> buf) res" where
  "set_string b offset str check_zero_end =
     (let body = (if check_zero_end then until_zero str else str);
          new_size = length body in
      case check_offset b offset (new_size + (if check_zero_end then 1 else 0)) of
        Inl e \<Rightarrow> Inl e
      | Inr _ \<Rightarrow>
          (let b1 = put_at b offset body in
           if check_zero_end
           then Inr (int (new_size + 1), b1[offset + new_size := NUL])
           else Inr (int new_size, b1)))"

definition eqv_string :: "buf \<Rightarrow> nat \<Rightarrow> string \<Rightarrow> bool \<Rightarrow> bool" where
  "eqv_string b offset str check_zero_end \<longleftrightarrow>
     is_valid b offset (length str + (if check_zero_end then 1 else 0)) \<and>
     take (length str) (drop offset b) = str \<and>
     (if check_zero_end then b ! (offset + length str) = NUL else True)"

section \<open>The bounds check\<close>

text \<open>No \<open>std::vector<char>\<close> holds \<open>2 ^ 63\<close> bytes or more.\<close>

definition vec_ok :: "buf \<Rightarrow> bool" where
  "vec_ok b \<longleftrightarrow> length b < 2 ^ 63"

lemma is_valid_exact:
  assumes "vec_ok b" "t_size < 2 ^ 63"
  shows "is_valid b offset t_size \<longleftrightarrow> offset < length b \<and> offset + t_size \<le> length b"
proof (cases "offset < length b")
  case True
  with assms have "offset + t_size < 2 ^ 64" by (simp add: vec_ok_def)
  then show ?thesis by (simp add: is_valid_def sz_add_exact)
qed (simp add: is_valid_def)

lemma is_valid_room: "is_valid b offset t_size \<Longrightarrow> offset < length b"
  by (simp add: is_valid_def)

lemma is_validI: "offset < length b \<Longrightarrow> offset + t_size \<le> length b \<Longrightarrow> is_valid b offset t_size"
  unfolding is_valid_def sz_add_def by (metis le_trans mod_less_eq_dividend)

lemma is_valid_small:
  assumes "is_valid b offset n" "n < 2 ^ 63" "vec_ok b"
  shows "offset + n \<le> length b"
  using assms is_valid_exact by blast

lemma check_offset_cases:
  "check_offset b offset n = (if is_valid b offset n then Inr () else Inl Invalid_argument)"
  by (simp add: check_offset_def)

section \<open>Integer access\<close>

text \<open>A byte order: how a value is laid out in bytes and read back.\<close>

locale byte_order =
  fixes enc :: "nat \<Rightarrow> nat \<Rightarrow> byte list"
    and dec :: "byte list \<Rightarrow> nat"
  assumes length_enc: "length (enc n v) = n"
    and dec_enc: "dec (enc n v) = v mod 256 ^ n"
    and enc_dec: "enc (length bs) (dec bs) = bs"
begin

lemma dec_put_same:
  assumes "i + n \<le> length b" "v < 256 ^ n"
  shows "dec (take n (drop i (put_at b i (enc n v)))) = v"
proof -
  from assms have "take n (drop i (put_at b i (enc n v))) = enc n v"
    using take_drop_put_at [of i b "enc n v"] by (simp add: length_enc)
  with assms show ?thesis by (simp add: dec_enc)
qed

lemma put_dec_same:
  assumes "i + n \<le> length b"
  shows "put_at b i (enc n (dec (take n (drop i b)))) = b"
proof -
  from assms have len: "length (take n (drop i b)) = n" by simp
  then have "enc n (dec (take n (drop i b))) = take n (drop i b)"
    using enc_dec [of "take n (drop i b)"] by simp
  moreover have "take i b @ take n (drop i b) @ drop (i + n) b = b"
    by (metis add.commute append_take_drop_id drop_drop)
  ultimately show ?thesis
    using len by (simp add: put_at_def)
qed

lemma enc_inj: "enc n v = enc n w \<Longrightarrow> v < 256 ^ n \<Longrightarrow> w < 256 ^ n \<Longrightarrow> v = w"
  by (metis dec_enc mod_less)

end

interpretation le_order: byte_order le_bytes le_val
  by unfold_locales (simp_all add: le_val_le_bytes le_bytes_le_val)

interpretation be_order: byte_order be_bytes be_val
  by unfold_locales (simp_all add: be_val_be_bytes be_bytes_be_val)

text \<open>
  The accessors of one integral type: what \<open>get\<close> and \<open>set\<close> of that type promise to the
  code that builds and reads packets.
\<close>

locale int_access = byte_order enc dec
  for enc :: "nat \<Rightarrow> nat \<Rightarrow> byte list" and dec :: "byte list \<Rightarrow> nat" +
  fixes getT :: "buf \<Rightarrow> nat \<Rightarrow> 'a::len word res"
    and setT :: "buf \<Rightarrow> nat \<Rightarrow> 'a word \<Rightarrow> (int \<times> buf) res"
    and sz :: nat
  assumes width: "LENGTH('a) = 8 * sz"
    and get_eq: "getT b off =
      (if is_valid b off sz then Inr (of_nat (dec (take sz (drop off b)))) else Inl Invalid_argument)"
    and set_eq: "setT b off v =
      (if is_valid b off sz then Inr (int sz, put_at b off (enc sz (unat v))) else Inl Invalid_argument)"
begin

lemma unat_bound: "unat (v :: 'a word) < 256 ^ sz"
proof -
  have "unat v < 2 ^ LENGTH('a)" by (rule unsigned_less)
  also have "(2 :: nat) ^ LENGTH('a) = 256 ^ sz"
    by (simp add: width power_mult)
  finally show ?thesis .
qed

lemma set_ok_iff: "is_ok (setT b off v) \<longleftrightarrow> is_valid b off sz"
  by (simp add: set_eq)

lemma get_ok_iff: "is_ok (getT b off) \<longleftrightarrow> is_valid b off sz"
  by (simp add: get_eq)

lemma set_valid:
  "setT b off v = Inr (k, b') \<Longrightarrow>
     is_valid b off sz \<and> k = int sz \<and> b' = put_at b off (enc sz (unat v))"
  by (simp add: set_eq split: if_splits)

lemma set_length:
  assumes "setT b off v = Inr (k, b')" "off + sz \<le> length b"
  shows "length b' = length b"
  using assms set_valid [of b off v k b'] by (simp add: length_enc)

lemma get_set_same:
  assumes "setT b off v = Inr (k, b')" "off + sz \<le> length b"
  shows "getT b' off = Inr v"
proof -
  from set_valid [OF assms(1)] have v: "is_valid b off sz" and b': "b' = put_at b off (enc sz (unat v))"
    by auto
  from assms have "length b' = length b" by (rule set_length)
  with v have "is_valid b' off sz" by (simp add: is_valid_def)
  moreover have "dec (take sz (drop off b')) = unat v"
    unfolding b' using assms(2) by (intro dec_put_same unat_bound)
  ultimately show ?thesis by (simp add: get_eq)
qed

lemma set_frame:
  assumes "setT b off v = Inr (k, b')" "off + sz \<le> length b" "j < off \<or> off + sz \<le> j" "j < length b"
  shows "b' ! j = b ! j"
  using assms set_valid [OF assms(1)] nth_put_at_other [of off "enc sz (unat v)" b j]
  by (simp add: length_enc)

lemma set_get_same:
  assumes "getT b off = Inr v" "off + sz \<le> length b"
  shows "setT b off v = Inr (int sz, b)"
proof -
  from assms have v: "is_valid b off sz" "v = of_nat (dec (take sz (drop off b)))"
    by (auto simp: get_eq split: if_splits)
  have len: "length (take sz (drop off b)) = sz" using assms(2) by simp
  have "dec (take sz (drop off b)) = dec (take sz (drop off b)) mod 256 ^ sz"
    using dec_enc [of sz "dec (take sz (drop off b))"] enc_dec [of "take sz (drop off b)"] len
    by simp
  then have "dec (take sz (drop off b)) < 256 ^ sz"
    by (metis mod_less_divisor zero_less_numeral zero_less_power)
  also have "(256 :: nat) ^ sz = 2 ^ LENGTH('a)" by (simp add: width power_mult)
  finally have "unat v = dec (take sz (drop off b))"
    by (simp add: v unat_of_nat)
  with v assms(2) show ?thesis by (simp add: set_eq put_dec_same)
qed

end

lemmas int_access_defs =
  get_be_def get_le_def set_be_def set_le_def check_offset_type_def check_offset_def

interpretation be16: int_access be_bytes be_val
  "get_be :: buf \<Rightarrow> nat \<Rightarrow> 16 word res" set_be 2
  by unfold_locales (simp_all add: int_access_defs)

interpretation le16: int_access le_bytes le_val
  "get_le :: buf \<Rightarrow> nat \<Rightarrow> 16 word res" set_le 2
  by unfold_locales (simp_all add: int_access_defs)

interpretation be8: int_access be_bytes be_val
  "get_be :: buf \<Rightarrow> nat \<Rightarrow> 8 word res" set_be 1
  by unfold_locales (simp_all add: int_access_defs)

interpretation le8: int_access le_bytes le_val
  "get_le :: buf \<Rightarrow> nat \<Rightarrow> 8 word res" set_le 1
  by unfold_locales (simp_all add: int_access_defs)

interpretation be32: int_access be_bytes be_val
  "get_be :: buf \<Rightarrow> nat \<Rightarrow> 32 word res" set_be 4
  by unfold_locales (simp_all add: int_access_defs)

interpretation le32: int_access le_bytes le_val
  "get_le :: buf \<Rightarrow> nat \<Rightarrow> 32 word res" set_le 4
  by unfold_locales (simp_all add: int_access_defs)

interpretation be64: int_access be_bytes be_val
  "get_be :: buf \<Rightarrow> nat \<Rightarrow> 64 word res" set_be 8
  by unfold_locales (simp_all add: int_access_defs)

interpretation le64: int_access le_bytes le_val
  "get_le :: buf \<Rightarrow> nat \<Rightarrow> 64 word res" set_le 8
  by unfold_locales (simp_all add: int_access_defs)

section \<open>String access\<close>

lemma put_at_then_NUL:
  assumes "i + length ys < length xs"
  shows "(put_at xs i ys)[i + length ys := z] = put_at xs i (ys @ [z])"
proof -
  from assms have "drop (i + length ys) xs = xs ! (i + length ys) # drop (Suc (i + length ys)) xs"
    by (simp add: Cons_nth_drop_Suc)
  then show ?thesis using assms
    by (simp add: put_at_def list_update_append min_def)
qed

lemma set_string_zero_end:
  assumes "vec_ok b" "length (until_zero s) + 1 < 2 ^ 63"
  shows "set_string b off s True =
    (if off + length (until_zero s) < length b
     then Inr (int (length (until_zero s)) + 1, put_at b off (until_zero s @ [NUL]))
     else Inl Invalid_argument)"
  using assms by (auto simp: set_string_def check_offset_def is_valid_exact put_at_then_NUL Let_def)

lemma set_string_no_zero:
  assumes "vec_ok b" "length s < 2 ^ 63"
  shows "set_string b off s False =
    (if off < length b \<and> off + length s \<le> length b then Inr (int (length s), put_at b off s)
     else Inl Invalid_argument)"
  using assms by (simp add: set_string_def check_offset_def is_valid_exact)

lemma get_string_rest:
  "off < length b \<Longrightarrow> get_string b off 0 = Inr (until_zero (drop off b))"
  by (auto simp: get_string_def check_offset_def is_valid_def sz_add_def
      intro: order.trans [OF mod_less_eq_dividend])

lemma get_string_len:
  assumes "0 < n" "off + n \<le> length b"
  shows "get_string b off n = Inr (until_zero (take n (drop off b)))"
  using assms is_validI [of off b n] by (simp add: get_string_def check_offset_def)

lemma get_string_result:
  assumes "get_string b off n = Inr s"
  shows "NUL \<notin> set s" "off + length s \<le> length b" "0 < n \<Longrightarrow> length s \<le> n"
proof -
  from assms obtain e where e: "e \<le> length b" "e = (if n > 0 then off + n else length b)"
    "s = until_zero (take (e - off) (drop off b))" "off < length b"
    by (auto simp: get_string_def check_offset_def Let_def is_valid_def split: if_splits)
  show "NUL \<notin> set s" using e by simp
  have "length s \<le> e - off"
    using e(3) length_until_zero [of "take (e - off) (drop off b)"] by simp
  then show "off + length s \<le> length b" "0 < n \<Longrightarrow> length s \<le> n"
    using e by (auto split: if_splits)
qed

text \<open>
  Big-endian 16-bit fields (the opcode and block number of every TFTP packet) read back as
  they were written: if \<open>set_be\<close> accepts a value at an offset, \<open>get_be\<close> at that offset returns
  it, the buffer keeps its size, and no byte outside the two written ones changes.
\<close>

lemma be16_roundtrip:
  fixes v :: "16 word"
  assumes "vec_ok b" "set_be b off v = Inr (k, b')"
  shows "get_be b' off = Inr v \<and> k = 2 \<and> length b' = length b \<and>
    (\<forall>j < length b. j < off \<or> off + 2 \<le> j \<longrightarrow> b' ! j = b ! j)"
proof -
  from be16.set_valid [OF assms(2)] have v: "is_valid b off 2" "k = 2" by auto
  have room: "off + 2 \<le> length b"
    by (rule is_valid_small [OF v(1) _ assms(1)]) simp
  show ?thesis
    using be16.get_set_same [OF assms(2) room] be16.set_length [OF assms(2) room]
      be16.set_frame [OF assms(2) room] v by auto
qed

text \<open>
  C29. A string written with a terminating zero is read back by \<open>get_string\<close> up to its first zero
  byte and recognised by \<open>eqv_string\<close>; the write is accepted exactly when the string and its
  terminator fit, returns the number of bytes stored, and otherwise throws without an effect.
\<close>

theorem string_roundtrip:
  assumes "vec_ok b" "length s + 1 < 2 ^ 63"
  shows "if off + length (until_zero s) < length b
    then \<exists>b'. set_string b off s True = Inr (int (length (until_zero s)) + 1, b') \<and>
           length b' = length b \<and> get_string b' off 0 = Inr (until_zero s) \<and>
           eqv_string b' off (until_zero s) True
    else set_string b off s True = Inl Invalid_argument"
proof (cases "off + length (until_zero s) < length b")
  case True
  let ?u = "until_zero s"
  let ?b = "put_at b off (?u @ [NUL])"
  from assms have small: "length ?u + 1 < 2 ^ 63"
    using length_until_zero [of s] by linarith
  have len: "length ?b = length b" using True by simp
  have dr: "drop off ?b = ?u @ NUL # drop (off + length ?u + 1) b"
    using True drop_put_at_before [of off b "?u @ [NUL]"] by simp
  have nth: "?b ! (off + length ?u) = NUL"
    using True len arg_cong [OF dr, of "\<lambda>l. l ! length ?u"] by (simp add: nth_append)
  have "get_string ?b off 0 = Inr ?u"
    using True len dr get_string_rest [of off ?b] by simp
  moreover have "eqv_string ?b off ?u True"
    using True len dr nth by (simp add: eqv_string_def is_validI)
  ultimately show ?thesis
    using True len set_string_zero_end [OF assms(1) small] by auto
next
  case False
  from assms have "length (until_zero s) + 1 < 2 ^ 63"
    using length_until_zero [of s] by linarith
  with False assms show ?thesis by (simp add: set_string_zero_end)
qed

theorem string_roundtrip_witness:
  "vec_ok (replicate 8 (CHR ''x'')) \<and>
   (\<exists>b'. set_string (replicate 8 (CHR ''x'')) 2 ''octet'' True = Inr (6, b') \<and> get_string b' 2 0 = Inr ''octet'')"
proof -
  have h: "vec_ok (replicate 8 (CHR ''x''))" "length ''octet'' + 1 < (2 :: nat) ^ 63"
    by (simp_all add: vec_ok_def)
  show ?thesis using h(1) string_roundtrip [OF h, of 2] by (auto simp: until_zero_def)
qed

end
