(* ===== verification/SmBufEx.thy ===== *)
theory SmBufEx
  imports SmBuf
begin

text \<open>
  The class \<open>SmBufEx\<close> (tftpSmBufEx.h, tftpSmBufEx.cpp): a \<open>SmBuf\<close> of fixed size with a cursor
  \<open>data_size_\<close> to which \<open>push_data\<close> appends integers and strings. Every packet the server
  sends is built with it. The invariant is that the cursor lies inside the buffer.
\<close>

section \<open>State and operations\<close>

record smbufex =
  sb_buf :: buf
  data_size :: nat
  val_int_bigendian :: bool
  val_str_zeroend :: bool

definition smbufex_new :: "nat \<Rightarrow> bool \<Rightarrow> bool \<Rightarrow> smbufex" where
  "smbufex_new buf_size is_int_be is_str_zero =
     \<lparr>sb_buf = replicate buf_size NUL, data_size = 0,
      val_int_bigendian = is_int_be, val_str_zeroend = is_str_zero\<rparr>"

definition buf_clear :: "smbufex \<Rightarrow> smbufex" where
  "buf_clear e = e\<lparr>data_size := 0\<rparr>"

definition is_bigendian :: "smbufex \<Rightarrow> bool" where
  "is_bigendian e = val_int_bigendian e"

definition is_littleendian :: "smbufex \<Rightarrow> bool" where
  "is_littleendian e = (\<not> val_int_bigendian e)"

definition is_zeroend :: "smbufex \<Rightarrow> bool" where
  "is_zeroend e = val_str_zeroend e"

definition set_bigendian :: "smbufex \<Rightarrow> smbufex" where
  "set_bigendian e = e\<lparr>val_int_bigendian := True\<rparr>"

definition set_littleendian :: "smbufex \<Rightarrow> smbufex" where
  "set_littleendian e = e\<lparr>val_int_bigendian := False\<rparr>"

definition set_zeroend :: "smbufex \<Rightarrow> smbufex" where
  "set_zeroend e = e\<lparr>val_str_zeroend := True\<rparr>"

definition set_not_zeroend :: "smbufex \<Rightarrow> smbufex" where
  "set_not_zeroend e = e\<lparr>val_str_zeroend := False\<rparr>"

definition data_size_reset :: "smbufex \<Rightarrow> nat \<Rightarrow> smbufex res" where
  "data_size_reset e new_size =
     (if new_size > length (sb_buf e) then Inl Invalid_argument
      else Inr (e\<lparr>data_size := new_size\<rparr>))"

text \<open>\<open>push_item\<close>: the integral branch for any word type, then the string branch.\<close>

definition push_int :: "smbufex \<Rightarrow> 'a::len word \<Rightarrow> (bool \<times> smbufex) res" where
  "push_int e val =
     (if sz_add (data_size e) (size_of_type TYPE('a)) \<le> length (sb_buf e) then
        (case (if is_bigendian e then set_be (sb_buf e) (data_size e) val
               else set_le (sb_buf e) (data_size e) val) of
           Inl ex \<Rightarrow> Inl ex
         | Inr (len, b) \<Rightarrow>
             if len \<ge> 0 then Inr (True, e\<lparr>sb_buf := b, data_size := data_size e + nat len\<rparr>)
             else Inr (False, e\<lparr>sb_buf := b\<rparr>))
      else Inr (False, e))"

definition push_str :: "smbufex \<Rightarrow> string \<Rightarrow> (bool \<times> smbufex) res" where
  "push_str e str =
     (if sz_add (data_size e) (length str) \<le> length (sb_buf e) then
        (case set_string (sb_buf e) (data_size e) str (val_str_zeroend e) of
           Inl ex \<Rightarrow> Inl ex
         | Inr (len, b) \<Rightarrow>
             if len \<ge> 0 then Inr (True, e\<lparr>sb_buf := b, data_size := data_size e + nat len\<rparr>)
             else Inr (False, e\<lparr>sb_buf := b\<rparr>))
      else Inr (False, e))"

datatype push_arg = PU8 "8 word" | PU16 "16 word" | PU32 "32 word" | PU64 "64 word" | PStr string

fun push_item :: "smbufex \<Rightarrow> push_arg \<Rightarrow> (bool \<times> smbufex) res" where
  "push_item e (PU8 v) = push_int e v"
| "push_item e (PU16 v) = push_int e v"
| "push_item e (PU32 v) = push_int e v"
| "push_item e (PU64 v) = push_int e v"
| "push_item e (PStr s) = push_str e s"

text \<open>
  The fold expression of \<open>push_data\<close> pushes every argument, also after one that did not fit.
\<close>

fun push_data :: "smbufex \<Rightarrow> push_arg list \<Rightarrow> (bool \<times> smbufex) res" where
  "push_data e [] = Inr (True, e)"
| "push_data e (x # xs) =
     (case push_item e x of
        Inl ex \<Rightarrow> Inl ex
      | Inr (r1, e1) \<Rightarrow>
          (case push_data e1 xs of
             Inl ex \<Rightarrow> Inl ex
           | Inr (r2, e2) \<Rightarrow> Inr (r1 \<and> r2, e2)))"

section \<open>Invariant\<close>

definition smbufex_inv :: "smbufex \<Rightarrow> bool" where
  "smbufex_inv e \<longleftrightarrow> vec_ok (sb_buf e) \<and> data_size e \<le> length (sb_buf e)"

definition content :: "smbufex \<Rightarrow> byte list" where
  "content e = take (data_size e) (sb_buf e)"

definition room :: "smbufex \<Rightarrow> nat" where
  "room e = length (sb_buf e) - data_size e"

text \<open>The bytes an argument stands for, under the flags of a buffer.\<close>

definition order_bytes :: "smbufex \<Rightarrow> nat \<Rightarrow> nat \<Rightarrow> byte list" where
  "order_bytes e = (if val_int_bigendian e then be_bytes else le_bytes)"

fun arg_bytes :: "smbufex \<Rightarrow> push_arg \<Rightarrow> byte list" where
  "arg_bytes e (PU8 v) = order_bytes e 1 (unat v)"
| "arg_bytes e (PU16 v) = order_bytes e 2 (unat v)"
| "arg_bytes e (PU32 v) = order_bytes e 4 (unat v)"
| "arg_bytes e (PU64 v) = order_bytes e 8 (unat v)"
| "arg_bytes e (PStr s) = (if val_str_zeroend e then until_zero s @ [NUL] else s)"

text \<open>Room that is enough for an argument, and that every argument fits in.\<close>

fun arg_need :: "push_arg \<Rightarrow> nat" where
  "arg_need (PU8 v) = 1"
| "arg_need (PU16 v) = 2"
| "arg_need (PU32 v) = 4"
| "arg_need (PU64 v) = 8"
| "arg_need (PStr s) = length s + 1"

lemma length_order_bytes [simp]: "length (order_bytes e n v) = n"
  by (simp add: order_bytes_def)

lemma length_arg_bytes: "length (arg_bytes e a) \<le> arg_need a"
  by (cases a) (auto simp: length_until_zero)

lemma content_eq_Nil [simp]: "data_size e = 0 \<Longrightarrow> content e = []"
  by (simp add: content_def)

lemma length_content: "smbufex_inv e \<Longrightarrow> length (content e) = data_size e"
  by (simp add: content_def smbufex_inv_def)

lemma smbufex_inv_new: "n < 2 ^ 63 \<Longrightarrow> smbufex_inv (smbufex_new n be z)"
  by (simp add: smbufex_inv_def smbufex_new_def vec_ok_def)

lemma smbufex_inv_clear: "smbufex_inv e \<Longrightarrow> smbufex_inv (buf_clear e)"
  by (simp add: smbufex_inv_def buf_clear_def)

lemma data_size_reset_inv:
  "smbufex_inv e \<Longrightarrow> data_size_reset e n = Inr e' \<Longrightarrow>
     smbufex_inv e' \<and> data_size e' = n \<and> sb_buf e' = sb_buf e"
  by (auto simp: data_size_reset_def smbufex_inv_def split: if_splits)

section \<open>What a push does\<close>

text \<open>\<open>appended e bs\<close> is the buffer after \<open>bs\<close> has been written at the cursor.\<close>

definition appended :: "smbufex \<Rightarrow> byte list \<Rightarrow> smbufex" where
  "appended e bs =
     e\<lparr>sb_buf := put_at (sb_buf e) (data_size e) bs, data_size := data_size e + length bs\<rparr>"

fun arg_ok :: "push_arg \<Rightarrow> bool" where
  "arg_ok (PStr s) \<longleftrightarrow> length s + 1 < 2 ^ 63"
| "arg_ok _ \<longleftrightarrow> True"

lemma appended_simps [simp]:
  "data_size (appended e bs) = data_size e + length bs"
  "val_int_bigendian (appended e bs) = val_int_bigendian e"
  "val_str_zeroend (appended e bs) = val_str_zeroend e"
  "arg_bytes (appended e bs) = arg_bytes e"
proof -
  show "arg_bytes (appended e bs) = arg_bytes e"
  proof
    fix a show "arg_bytes (appended e bs) a = arg_bytes e a"
      by (cases a) (simp_all add: appended_def order_bytes_def)
  qed
qed (simp_all add: appended_def)

lemma content_appended:
  assumes "smbufex_inv e"
  shows "content (appended e bs) = content e @ bs"
  using assms by (simp add: content_def appended_def smbufex_inv_def take_put_at)

lemma appended_inv:
  assumes "smbufex_inv e" "length bs \<le> room e"
  shows "smbufex_inv (appended e bs)" "length (sb_buf (appended e bs)) = length (sb_buf e)"
    "room (appended e bs) = room e - length bs"
  using assms by (auto simp: smbufex_inv_def appended_def vec_ok_def room_def)

lemma appended_appended:
  "smbufex_inv e \<Longrightarrow> appended (appended e bs) cs = appended e (bs @ cs)"
  by (simp add: appended_def smbufex_inv_def put_at_put_at_append add.assoc)

lemma room_sum: "smbufex_inv e \<Longrightarrow> n \<le> room e \<longleftrightarrow> data_size e + n \<le> length (sb_buf e)"
  by (auto simp: smbufex_inv_def room_def)

lemma push_int_eq:
  fixes v :: "'a::len word"
  assumes inv: "smbufex_inv e"
    and n: "size_of_type TYPE('a) = 1 \<or> size_of_type TYPE('a) = 2 \<or>
            size_of_type TYPE('a) = 4 \<or> size_of_type TYPE('a) = 8"
  shows "push_int e v =
    (if size_of_type TYPE('a) \<le> room e
     then Inr (True, appended e (order_bytes e (size_of_type TYPE('a)) (unat v)))
     else Inr (False, e))"
proof -
  let ?n = "size_of_type TYPE('a)"
  from n have pos: "0 < ?n" and small: "?n < 2 ^ 63" by auto
  from inv small have sum: "sz_add (data_size e) ?n = data_size e + ?n"
    by (intro sz_add_exact) (auto simp: smbufex_inv_def vec_ok_def)
  have valid: "data_size e + ?n \<le> length (sb_buf e) \<Longrightarrow> is_valid (sb_buf e) (data_size e) ?n"
    using pos by (intro is_validI) linarith+
  show ?thesis
  proof (cases "?n \<le> room e")
    case True
    then have fits: "data_size e + ?n \<le> length (sb_buf e)"
      using inv by (simp add: room_sum)
    from n have ok: "(?n = 1 \<or> ?n = 2 \<or> ?n = 4 \<or> ?n = 8) = True" by blast
    have be: "set_be (sb_buf e) (data_size e) v =
        Inr (int ?n, put_at (sb_buf e) (data_size e) (be_bytes ?n (unat v)))"
      using valid [OF fits] by (simp only: set_be_def check_offset_type_def check_offset_def Let_def ok) simp
    have le: "set_le (sb_buf e) (data_size e) v =
        Inr (int ?n, put_at (sb_buf e) (data_size e) (le_bytes ?n (unat v)))"
      using valid [OF fits] by (simp only: set_le_def check_offset_type_def check_offset_def Let_def ok) simp
    show ?thesis
      using True fits by (simp add: push_int_def sum be le is_bigendian_def appended_def order_bytes_def)
  next
    case False
    with inv show ?thesis by (simp add: push_int_def sum room_sum)
  qed
qed

lemma push_str_eq:
  assumes inv: "smbufex_inv e" and s: "length s + 1 < 2 ^ 63"
  shows "push_str e s =
    (if length s > room e then Inr (False, e)
     else if val_str_zeroend e then
       (if length (until_zero s) < room e then Inr (True, appended e (until_zero s @ [NUL]))
        else Inl Invalid_argument)
     else if room e = 0 then Inl Invalid_argument
     else Inr (True, appended e s))"
proof -
  from inv s have sum: "sz_add (data_size e) (length s) = data_size e + length s"
    by (intro sz_add_exact) (auto simp: smbufex_inv_def vec_ok_def)
  have v: "vec_ok (sb_buf e)" and ds: "data_size e \<le> length (sb_buf e)"
    using inv by (auto simp: smbufex_inv_def)
  have u: "length (until_zero s) + 1 < 2 ^ 63"
    using s length_until_zero [of s] by linarith
  have rm: "length s \<le> room e \<longleftrightarrow> data_size e + length s \<le> length (sb_buf e)"
    "length (until_zero s) < room e \<longleftrightarrow> data_size e + length (until_zero s) < length (sb_buf e)"
    "room e = 0 \<longleftrightarrow> \<not> data_size e < length (sb_buf e)"
    using ds by (auto simp: room_def)
  show ?thesis
    using rm s by (cases "val_str_zeroend e")
      (auto simp: push_str_def sum set_string_zero_end [OF v u] set_string_no_zero [OF v] appended_def
        nat_add_distrib)
qed

lemmas push_item_eqs =
  push_int_eq [where ?'a = 8] push_int_eq [where ?'a = 16]
  push_int_eq [where ?'a = 32] push_int_eq [where ?'a = 64] push_str_eq

lemma push_item_fits:
  assumes "smbufex_inv e" "arg_ok a" "arg_need a \<le> room e"
  shows "push_item e a = Inr (True, appended e (arg_bytes e a))"
proof (cases a)
  case (PStr s)
  moreover have "length (until_zero s) < room e"
    using assms PStr length_until_zero [of s] by simp
  ultimately show ?thesis using assms by (auto simp: push_str_eq)
qed (use assms in \<open>simp_all add: push_item_eqs\<close>)

text \<open>
  Every outcome of a push that returns: the arguments' bytes appended, or nothing changed.
\<close>

lemma push_item_outcome:
  assumes "smbufex_inv e" "arg_ok a" "push_item e a = Inr (r, e')"
  shows "(r \<and> e' = appended e (arg_bytes e a) \<and> length (arg_bytes e a) \<le> room e) \<or> (\<not> r \<and> e' = e)"
proof (cases a)
  case (PStr s)
  with assms show ?thesis
    by (auto simp: push_str_eq split: if_splits)
qed (use assms in \<open>auto simp: push_item_eqs split: if_splits\<close>)

section \<open>The packet-building interface\<close>

text \<open>
  What the session relies on when it builds a packet: pushes append the bytes of their
  arguments as long as there is room, and a sequence of pushes appends them in order.
\<close>

locale packet_writer =
  fixes inv :: "'b \<Rightarrow> bool"
    and bytes :: "'b \<Rightarrow> byte list"
    and space :: "'b \<Rightarrow> nat"
    and enc :: "'b \<Rightarrow> 'i \<Rightarrow> byte list"
    and need :: "'i \<Rightarrow> nat"
    and ok :: "'i \<Rightarrow> bool"
    and push :: "'b \<Rightarrow> 'i \<Rightarrow> (bool \<times> 'b) res"
    and pushes :: "'b \<Rightarrow> 'i list \<Rightarrow> (bool \<times> 'b) res"
  assumes enc_need: "length (enc b i) \<le> need i"
    and push_ok: "inv b \<Longrightarrow> ok i \<Longrightarrow> need i \<le> space b \<Longrightarrow>
      \<exists>b'. push b i = Inr (True, b') \<and> inv b' \<and> bytes b' = bytes b @ enc b i \<and>
           space b' = space b - length (enc b i) \<and> enc b' = enc b"
    and push_any: "inv b \<Longrightarrow> ok i \<Longrightarrow> push b i = Inr (r, b') \<Longrightarrow>
      inv b' \<and> enc b' = enc b \<and> (\<exists>bs. bytes b' = bytes b @ bs \<and> (bs = enc b i \<or> bs = []))"
    and pushes_Nil: "pushes b [] = Inr (True, b)"
    and pushes_Cons: "pushes b (i # is) =
      (case push b i of Inl e \<Rightarrow> Inl e
       | Inr (r1, b1) \<Rightarrow> (case pushes b1 is of Inl e \<Rightarrow> Inl e
                        | Inr (r2, b2) \<Rightarrow> Inr (r1 \<and> r2, b2)))"
begin

lemma pushes_fit:
  assumes "inv b" "\<forall>i \<in> set is. ok i" "(\<Sum>i\<leftarrow>is. need i) \<le> space b"
  shows "\<exists>b'. pushes b is = Inr (True, b') \<and> inv b' \<and>
    bytes b' = bytes b @ concat (map (enc b) is) \<and> enc b' = enc b \<and>
    space b - (\<Sum>i\<leftarrow>is. need i) \<le> space b'"
  using assms
proof (induction "is" arbitrary: b)
  case Nil
  then show ?case by (simp add: pushes_Nil)
next
  case (Cons i "is")
  then obtain b1 where b1: "push b i = Inr (True, b1)" "inv b1" "bytes b1 = bytes b @ enc b i"
    "space b1 = space b - length (enc b i)" "enc b1 = enc b"
    using push_ok [of b i] by auto
  have "(\<Sum>i\<leftarrow>is. need i) \<le> space b1"
    using Cons.prems(3) b1(4) enc_need [of b i] by simp
  with Cons.IH [of b1] Cons.prems(2) b1 obtain b2 where
    b2: "pushes b1 is = Inr (True, b2)" "inv b2" "bytes b2 = bytes b1 @ concat (map (enc b1) is)"
      "enc b2 = enc b1" "space b1 - (\<Sum>i\<leftarrow>is. need i) \<le> space b2"
    by auto
  have "space b - (need i + (\<Sum>i\<leftarrow>is. need i)) \<le> space b2"
    using b2(5) b1(4) enc_need [of b i] by linarith
  with b1 b2 show ?case by (simp add: pushes_Cons)
qed

lemma pushes_inv:
  assumes "inv b" "\<forall>i \<in> set is. ok i" "pushes b is = Inr (r, b')"
  shows "inv b' \<and> (\<exists>bs. bytes b' = bytes b @ bs)"
  using assms
proof (induction "is" arbitrary: b r b')
  case Nil
  then show ?case by (simp add: pushes_Nil)
next
  case (Cons i "is")
  then obtain r1 b1 r2 where "push b i = Inr (r1, b1)" "pushes b1 is = Inr (r2, b')"
    by (auto simp: pushes_Cons split: sum.splits prod.splits)
  with Cons.IH [of b1 r2 b'] Cons.prems push_any [of b i r1 b1] show ?case by auto
qed

end

lemma push_item_any:
  assumes "smbufex_inv e" "arg_ok a" "push_item e a = Inr (r, e')"
  shows "smbufex_inv e' \<and> arg_bytes e' = arg_bytes e \<and>
    (\<exists>bs. content e' = content e @ bs \<and> (bs = arg_bytes e a \<or> bs = []))"
  using push_item_outcome [OF assms] assms(1) by (auto simp: appended_inv content_appended)

interpretation pw: packet_writer smbufex_inv content room arg_bytes arg_need arg_ok push_item push_data
proof (unfold_locales, goal_cases)
  case (1 b i) show ?case by (rule length_arg_bytes)
next
  case (2 b i)
  moreover from 2 have "length (arg_bytes b i) \<le> room b"
    using length_arg_bytes [of b i] by linarith
  ultimately show ?case by (simp add: push_item_fits appended_inv content_appended)
next
  case (3 b i r b') then show ?case by (rule push_item_any)
qed simp_all

text \<open>
  C27. \<open>push_data\<close> on arguments that fit returns true and appends exactly the bytes of the
  arguments, in order: integers in the byte order of the buffer, strings with their terminating
  zero. The buffer keeps its size and the cursor ends behind the last byte.
\<close>

theorem push_data_appends:
  assumes "smbufex_inv e" "\<forall>a \<in> set args. arg_ok a" "(\<Sum>a\<leftarrow>args. arg_need a) \<le> room e"
  shows "\<exists>e'. push_data e args = Inr (True, e') \<and> smbufex_inv e' \<and>
    content e' = content e @ concat (map (arg_bytes e) args)"
  using pw.pushes_fit [OF assms] by blast

theorem push_data_appends_witness:
  "smbufex_inv (smbufex_new 16 True True) \<and>
   (\<exists>e'. push_data (smbufex_new 16 True True) [PU16 5, PU16 1, PStr ''no''] = Inr (True, e') \<and>
         content e' = [NUL, CHR 0x05, NUL, CHR 0x01, CHR ''n'', CHR ''o'', NUL])"
proof -
  have i: "smbufex_inv (smbufex_new 16 True True)" by (rule smbufex_inv_new) simp
  have o: "\<forall>a \<in> set [PU16 5, PU16 1, PStr ''no'']. arg_ok a" by simp
  have n: "(\<Sum>a\<leftarrow>[PU16 5, PU16 1, PStr ''no'']. arg_need a) \<le> room (smbufex_new 16 True True)"
    by (simp add: room_def smbufex_new_def)
  have c: "content (smbufex_new 16 True True) @
      concat (map (arg_bytes (smbufex_new 16 True True)) [PU16 5, PU16 1, PStr ''no'']) =
      [NUL, CHR 0x05, NUL, CHR 0x01, CHR ''n'', CHR ''o'', NUL]"
    by code_simp
  show ?thesis using i push_data_appends [OF i o n] unfolding c by blast
qed

text \<open>
  C28. Whatever \<open>push_data\<close> is given, when it returns the cursor is still inside the buffer and
  the bytes pushed before are still there: a push never corrupts what precedes it.
\<close>

theorem push_data_safe:
  assumes "smbufex_inv e" "\<forall>a \<in> set args. arg_ok a" "push_data e args = Inr (r, e')"
  shows "smbufex_inv e' \<and> take (data_size e) (content e') = content e"
proof -
  from pw.pushes_inv [OF assms] obtain bs where "smbufex_inv e'" "content e' = content e @ bs"
    by auto
  with assms(1) show ?thesis by (simp add: length_content)
qed

theorem push_data_safe_witness:
  "\<exists>e'. push_data (smbufex_new 3 True True) [PU16 5, PU16 1, PU8 7] = Inr (False, e') \<and> smbufex_inv e'"
proof -
  have i: "smbufex_inv (smbufex_new 3 True True)" by (rule smbufex_inv_new) simp
  have o: "\<forall>a \<in> set [PU16 5, PU16 1, PU8 7]. arg_ok a" by simp
  have r: "push_data (smbufex_new 3 True True) [PU16 5, PU16 1, PU8 7] =
      Inr (False, \<lparr>sb_buf = [NUL, CHR 0x05, CHR 0x07], data_size = 3,
                   val_int_bigendian = True, val_str_zeroend = True\<rparr>)"
    by code_simp
  show ?thesis using r push_data_safe [OF i o r] by blast
qed

text \<open>
  The string branch of \<open>push_item\<close> tests for room without the terminating zero: a string
  that fills the remaining room exactly makes it throw \<open>invalid_argument\<close>, where the header
  documents a false result for a value that does not fit.
\<close>

theorem push_exact_fit_throws:
  assumes "smbufex_inv e" "val_str_zeroend e" "NUL \<notin> set s" "length s = room e"
  shows "push_data e [PStr s] = Inl Invalid_argument"
proof -
  have "length s + 1 < 2 ^ 63 \<or> length s + 1 = 2 ^ 63"
    using assms by (auto simp: smbufex_inv_def vec_ok_def room_def)
  then show ?thesis
  proof
    assume "length s + 1 < 2 ^ 63"
    with assms show ?thesis by (simp add: push_str_eq)
  next
    assume "length s + 1 = 2 ^ 63"
    with assms have d: "data_size e = 0" "length (sb_buf e) = length s" "length s = 2 ^ 63 - 1"
      by (auto simp: smbufex_inv_def vec_ok_def room_def)
    then have "\<not> is_valid (sb_buf e) (data_size e) (length s + 1)"
      by (simp add: is_valid_def sz_add_def)
    with d assms show ?thesis
      by (simp add: push_str_def set_string_def check_offset_def sz_add_def Let_def)
  qed
qed

theorem push_exact_fit_throws_witness:
  "push_data (smbufex_new 2 True True) [PStr ''ab''] = Inl Invalid_argument \<and>
   push_data (smbufex_new 2 True True) [PStr ''abc''] = Inr (False, smbufex_new 2 True True)"
proof -
  have "push_data (smbufex_new 2 True True) [PStr ''ab''] = Inl Invalid_argument"
    by (rule push_exact_fit_throws) (auto simp: smbufex_inv_new smbufex_new_def room_def smbufex_inv_def vec_ok_def)
  moreover have "push_data (smbufex_new 2 True True) [PStr ''abc''] = Inr (False, smbufex_new 2 True True)"
    by code_simp
  ultimately show ?thesis by blast
qed

end
