(* ===== verification/Common.thy ===== *)
theory Common
  imports SmBuf
begin

text \<open>
  The shared types and free functions of tftpCommon.h and tftpCommon.cpp: the enumerations with
  their \<open>to_string\<close>, \<open>do_lower\<close>, \<open>is_digit_str\<close>, \<open>sockaddr_to_str\<close> and the two name
  look-ups; and the conversions of the standard library the server uses (\<open>std::stoi\<close>,
  \<open>std::stoul\<close>, \<open>std::to_string\<close>). \<open>inet_ntop\<close> and the user and group databases are
  not part of the repository: they are arguments of the definitions that call them.
\<close>

section \<open>Enumerations\<close>

datatype srv_req = srv_unknown | srv_read | srv_write

datatype transf_mode = tm_unknown | tm_netascii | tm_octet | tm_binary | tm_mail

datatype log_lvl =
  lvl_emerg | lvl_alert | lvl_crit | lvl_err | lvl_warning | lvl_notice | lvl_info | lvl_debug

datatype state =
    need_init
  | error_and_stop
  | ack_options
  | data_tx
  | data_rx
  | ack_tx
  | ack_rx
  | retransmit
  | finish

datatype triple_result = tr_nop | tr_ok | tr_fail

fun srv_req_num :: "srv_req \<Rightarrow> int" where
  "srv_req_num srv_unknown = 0"
| "srv_req_num srv_read = 1"
| "srv_req_num srv_write = 2"

fun log_lvl_num :: "log_lvl \<Rightarrow> int" where
  "log_lvl_num lvl_emerg = 0"
| "log_lvl_num lvl_alert = 1"
| "log_lvl_num lvl_crit = 2"
| "log_lvl_num lvl_err = 3"
| "log_lvl_num lvl_warning = 4"
| "log_lvl_num lvl_notice = 5"
| "log_lvl_num lvl_info = 6"
| "log_lvl_num lvl_debug = 7"

text \<open>Severities are ordered by their numbers, as \<open>Base::log\<close> compares them.\<close>

lemma log_lvl_num_inj: "log_lvl_num a = log_lvl_num b \<Longrightarrow> a = b"
  by (cases a; cases b) simp_all

instantiation log_lvl :: linorder
begin

definition less_eq_log_lvl :: "log_lvl \<Rightarrow> log_lvl \<Rightarrow> bool" where
  "less_eq_log_lvl a b \<longleftrightarrow> log_lvl_num a \<le> log_lvl_num b"

definition less_log_lvl :: "log_lvl \<Rightarrow> log_lvl \<Rightarrow> bool" where
  "less_log_lvl a b \<longleftrightarrow> log_lvl_num a < log_lvl_num b"

instance
  by standard (auto simp: less_eq_log_lvl_def less_log_lvl_def intro: log_lvl_num_inj)

end

fun srv_req_str :: "srv_req \<Rightarrow> string" where
  "srv_req_str srv_unknown = ''unknown''"
| "srv_req_str srv_read = ''read''"
| "srv_req_str srv_write = ''write''"

fun transf_mode_str :: "transf_mode \<Rightarrow> string" where
  "transf_mode_str tm_unknown = ''unknown''"
| "transf_mode_str tm_netascii = ''netascii''"
| "transf_mode_str tm_octet = ''octet''"
| "transf_mode_str tm_binary = ''binary''"
| "transf_mode_str tm_mail = ''UNK_TRANSF_MODE''"

fun log_lvl_str :: "log_lvl \<Rightarrow> string" where
  "log_lvl_str lvl_emerg = ''emerg''"
| "log_lvl_str lvl_alert = ''alert''"
| "log_lvl_str lvl_crit = ''crit''"
| "log_lvl_str lvl_err = ''err''"
| "log_lvl_str lvl_warning = ''warning''"
| "log_lvl_str lvl_notice = ''notice''"
| "log_lvl_str lvl_info = ''info''"
| "log_lvl_str lvl_debug = ''debug''"

fun state_str :: "state \<Rightarrow> string" where
  "state_str need_init = ''need_init''"
| "state_str error_and_stop = ''error_and_stop''"
| "state_str ack_options = ''ack_options''"
| "state_str data_tx = ''data_tx''"
| "state_str data_rx = ''data_rx''"
| "state_str ack_tx = ''ack_tx''"
| "state_str ack_rx = ''ack_rx''"
| "state_str retransmit = ''retransmit''"
| "state_str finish = ''finish''"

fun triple_result_str :: "triple_result \<Rightarrow> string" where
  "triple_result_str tr_nop = ''nop''"
| "triple_result_str tr_ok = ''ok''"
| "triple_result_str tr_fail = ''fail''"

section \<open>Characters and strings\<close>

text \<open>\<open>std::tolower\<close>, \<open>std::isdigit\<close>, \<open>std::isspace\<close> in the C locale.\<close>

definition is_digit :: "byte \<Rightarrow> bool" where
  "is_digit c \<longleftrightarrow> 48 \<le> (of_char c :: nat) \<and> (of_char c :: nat) \<le> 57"

definition is_space :: "byte \<Rightarrow> bool" where
  "is_space c \<longleftrightarrow> (of_char c :: nat) = 32 \<or> (9 \<le> (of_char c :: nat) \<and> (of_char c :: nat) \<le> 13)"

definition to_lower :: "byte \<Rightarrow> byte" where
  "to_lower c = (if 65 \<le> (of_char c :: nat) \<and> (of_char c :: nat) \<le> 90
                 then char_of ((of_char c :: nat) + 32) else c)"

definition do_lower :: "string \<Rightarrow> string" where
  "do_lower val = map to_lower val"

definition is_digit_str :: "string \<Rightarrow> bool" where
  "is_digit_str val = (if length val = 0 then False else fold (\<lambda>c l. l \<and> is_digit c) val True)"

text \<open>
  \<open>sockaddr_to_str\<close>: the family is the first 16-bit field in host order; \<open>inet_ntop\<close> maps a
  family and the address bytes to text.
\<close>

abbreviation (input) AF_INET :: nat where "AF_INET \<equiv> 2"
abbreviation (input) AF_INET6 :: nat where "AF_INET6 \<equiv> 10"
abbreviation (input) sizeof_sockaddr_in :: nat where "sizeof_sockaddr_in \<equiv> 16"
abbreviation (input) sizeof_sockaddr_in6 :: nat where "sizeof_sockaddr_in6 \<equiv> 28"

definition sockaddr_family :: "byte list \<Rightarrow> nat" where
  "sockaddr_family bs = le_val (take 2 bs)"

definition sockaddr_port :: "byte list \<Rightarrow> nat" where
  "sockaddr_port bs = be_val (take 2 (drop 2 bs))"

section \<open>Numbers as text\<close>

definition digit_val :: "byte \<Rightarrow> nat" where
  "digit_val c = (of_char c :: nat) - 48"

definition digit_char :: "nat \<Rightarrow> byte" where
  "digit_char d = char_of (48 + d)"

definition digits_val :: "nat \<Rightarrow> string \<Rightarrow> nat" where
  "digits_val base ds = foldl (\<lambda>a c. a * base + digit_val c) 0 ds"

text \<open>
  The number that \<open>strtol\<close> reads in a base up to ten: leading space, an optional sign, then the
  longest run of digits; no digit is \<open>None\<close>. The value is unbounded here; \<open>stoi\<close> and
  \<open>stoul\<close> check its range.
\<close>

definition str_to_int :: "nat \<Rightarrow> string \<Rightarrow> (bool \<times> nat) option" where
  "str_to_int base s =
     (let t = dropWhile is_space s;
          neg = (t \<noteq> [] \<and> hd t = CHR ''-'');
          u = (if t \<noteq> [] \<and> (hd t = CHR ''-'' \<or> hd t = CHR ''+'') then tl t else t);
          ds = takeWhile (\<lambda>c. is_digit c \<and> digit_val c < base) u
      in if ds = [] then None else Some (neg, digits_val base ds))"

definition stoi :: "nat \<Rightarrow> string \<Rightarrow> int res" where
  "stoi base s =
     (case str_to_int base s of
        None \<Rightarrow> Inl Invalid_argument
      | Some (neg, v) \<Rightarrow>
          (let i = (if neg then - int v else int v) in
           if - (2 ^ 31) \<le> i \<and> i < 2 ^ 31 then Inr i else Inl Out_of_range))"

definition stoul :: "string \<Rightarrow> nat res" where
  "stoul s =
     (case str_to_int 10 s of
        None \<Rightarrow> Inl Invalid_argument
      | Some (neg, v) \<Rightarrow>
          if v < 2 ^ 64 then Inr (if neg then sz_sub 0 v else v) else Inl Out_of_range)"

fun nat_str :: "nat \<Rightarrow> string" where
  "nat_str n = (if n < 10 then [digit_char n] else nat_str (n div 10) @ [digit_char (n mod 10)])"

declare nat_str.simps [simp del]

definition int_str :: "int \<Rightarrow> string" where
  "int_str i = (if i < 0 then CHR ''-'' # nat_str (nat (- i)) else nat_str (nat i))"

definition sockaddr_to_str :: "(nat \<Rightarrow> byte list \<Rightarrow> string) \<Rightarrow> byte list \<Rightarrow> string" where
  "sockaddr_to_str inet_ntop bs =
     (if length bs < 2 then []
      else if sockaddr_family bs = AF_INET then
        (if length bs < sizeof_sockaddr_in then []
         else inet_ntop AF_INET (take 4 (drop 4 bs)) @ '':'' @ nat_str (sockaddr_port bs))
      else if sockaddr_family bs = AF_INET6 then
        (if length bs < sizeof_sockaddr_in6 then []
         else ''['' @ inet_ntop AF_INET6 (take 16 (drop 8 bs)) @ '']:'' @ nat_str (sockaddr_port bs))
      else [])"

text \<open>The look-ups answer 0, the id of root, for a name that is not in the database.\<close>

definition get_uid_by_name :: "(string \<Rightarrow> nat option) \<Rightarrow> string \<Rightarrow> nat" where
  "get_uid_by_name getpwnam name = (case getpwnam name of None \<Rightarrow> 0 | Some uid \<Rightarrow> uid)"

definition get_gid_by_name :: "(string \<Rightarrow> nat option) \<Rightarrow> string \<Rightarrow> nat" where
  "get_gid_by_name getgrnam name = (case getgrnam name of None \<Rightarrow> 0 | Some gid \<Rightarrow> gid)"

section \<open>Lemmas\<close>

lemma is_digit_str_iff: "is_digit_str s \<longleftrightarrow> s \<noteq> [] \<and> (\<forall>c \<in> set s. is_digit c)"
proof -
  have "fold (\<lambda>c l. l \<and> is_digit c) s b \<longleftrightarrow> b \<and> (\<forall>c \<in> set s. is_digit c)" for b
    by (induction s arbitrary: b) auto
  then show ?thesis by (simp add: is_digit_str_def)
qed

lemma length_do_lower [simp]: "length (do_lower s) = length s"
  by (simp add: do_lower_def)

lemma of_char_to_lower:
  "(of_char (to_lower c) :: nat) =
     (if 65 \<le> (of_char c :: nat) \<and> (of_char c :: nat) \<le> 90 then of_char c + 32 else of_char c)"
  by (auto simp: to_lower_def)

lemma to_lower_idem [simp]: "to_lower (to_lower c) = to_lower c"
proof -
  have "(of_char (to_lower (to_lower c)) :: nat) = of_char (to_lower c)"
    by (auto simp: of_char_to_lower)
  then show ?thesis by (simp only: of_char_eq_iff)
qed

lemma do_lower_idem [simp]: "do_lower (do_lower s) = do_lower s"
  by (simp add: do_lower_def)

lemma digit_not_space: "is_digit c \<Longrightarrow> \<not> is_space c \<and> c \<noteq> CHR ''-'' \<and> c \<noteq> CHR ''+'' \<and> c \<noteq> NUL"
  by (auto simp: is_digit_def is_space_def)

lemma digit_val_bound: "is_digit c \<Longrightarrow> digit_val c < 10"
  by (auto simp: is_digit_def digit_val_def)

lemma str_to_int_digits:
  assumes "is_digit_str s"
  shows "str_to_int 10 s = Some (False, digits_val 10 s)"
proof -
  from assms obtain c cs where s: "s = c # cs" and d: "\<forall>x \<in> set s. is_digit x"
    by (cases s) (auto simp: is_digit_str_iff)
  have c: "\<not> is_space c" "c \<noteq> CHR ''-''" "c \<noteq> CHR ''+''"
    using d s digit_not_space [of c] by auto
  have "takeWhile (\<lambda>c. is_digit c \<and> digit_val c < 10) s = s"
    using d by (auto simp: takeWhile_eq_all_conv digit_val_bound)
  then show ?thesis using c s by (simp add: str_to_int_def Let_def)
qed

lemma stoi_digits:
  "is_digit_str s \<Longrightarrow>
     stoi 10 s = (if digits_val 10 s < 2 ^ 31 then Inr (int (digits_val 10 s)) else Inl Out_of_range)"
  by (simp add: stoi_def str_to_int_digits)

lemma stoi_range: "stoi base s = Inr i \<Longrightarrow> - (2 ^ 31) \<le> i \<and> i < 2 ^ 31"
  by (auto simp: stoi_def Let_def split: option.splits prod.splits if_splits)

lemma is_digit_digit_char: "d < 10 \<Longrightarrow> is_digit (digit_char d)"
  by (simp add: is_digit_def digit_char_def)

lemma digit_val_digit_char: "d < 10 \<Longrightarrow> digit_val (digit_char d) = d"
  by (simp add: digit_val_def digit_char_def)

lemma digits_val_snoc: "digits_val base (ds @ [c]) = digits_val base ds * base + digit_val c"
  by (simp add: digits_val_def)

lemma nat_str_digits: "is_digit_str (nat_str n) \<and> digits_val 10 (nat_str n) = n"
proof (induction n rule: nat_str.induct)
  case (1 n)
  show ?case
  proof (cases "n < 10")
    case True
    then show ?thesis
      by (simp add: nat_str.simps [of n] is_digit_str_iff is_digit_digit_char digits_val_def
          digit_val_digit_char)
  next
    case False
    with "1.IH" have "is_digit_str (nat_str (n div 10))" "digits_val 10 (nat_str (n div 10)) = n div 10"
      by auto
    with False show ?thesis
      by (auto simp: nat_str.simps [of n] is_digit_str_iff is_digit_digit_char digits_val_snoc
          digit_val_digit_char)
  qed
qed

lemma nat_str_no_NUL [simp]: "NUL \<notin> set (nat_str n)"
  using nat_str_digits [of n] digit_not_space by (auto simp: is_digit_str_iff)

lemma nat_str_nonempty [simp]: "nat_str n \<noteq> []"
  using nat_str_digits [of n] by (auto simp: is_digit_str_iff)

lemma int_str_no_NUL [simp]: "NUL \<notin> set (int_str i)"
  by (simp add: int_str_def)

lemma length_nat_str: "n < 10 ^ Suc k \<Longrightarrow> length (nat_str n) \<le> Suc k"
proof (induction k arbitrary: n)
  case 0
  then show ?case by (subst nat_str.simps) simp
next
  case (Suc k)
  then have "n div 10 < 10 ^ Suc k" by (simp add: div_less_iff_less_mult mult.commute)
  with Suc.IH show ?case by (subst nat_str.simps) simp
qed

lemma stoi_int_str:
  assumes "- (2 ^ 31) \<le> i" "i < 2 ^ 31"
  shows "stoi 10 (int_str i) = Inr i"
proof (cases "i < 0")
  case False
  with assms nat_str_digits [of "nat i"] show ?thesis
    by (simp add: int_str_def stoi_digits)
next
  case True
  define ds where "ds = nat_str (nat (- i))"
  have d: "ds \<noteq> []" "\<forall>c \<in> set ds. is_digit c" "digits_val 10 ds = nat (- i)"
    using nat_str_digits [of "nat (- i)"] by (auto simp: ds_def is_digit_str_iff)
  have tw: "takeWhile (\<lambda>c. is_digit c \<and> digit_val c < 10) ds = ds"
    using d by (auto simp: takeWhile_eq_all_conv digit_val_bound)
  have "\<not> is_space (CHR ''-'')" by (simp add: is_space_def)
  then have "str_to_int 10 (CHR ''-'' # ds) = Some (True, nat (- i))"
    using d by (simp add: str_to_int_def Let_def tw)
  with True assms show ?thesis by (simp add: int_str_def stoi_def ds_def)
qed

lemma stoul_digits:
  "is_digit_str s \<Longrightarrow> digits_val 10 s < 2 ^ 64 \<Longrightarrow> stoul s = Inr (digits_val 10 s)"
  by (simp add: stoul_def str_to_int_digits)

lemma digits_val_bound: "\<forall>c \<in> set s. is_digit c \<Longrightarrow> digits_val 10 s < 10 ^ length s"
proof (induction s rule: rev_induct)
  case (snoc c s)
  then have "digits_val 10 s + 1 \<le> 10 ^ length s" "digit_val c < 10"
    by (auto simp: digit_val_bound)
  then have "digits_val 10 s * 10 + digit_val c < 10 ^ length s * 10" by linarith
  then show ?case by (simp add: digits_val_snoc mult.commute)
qed (simp add: digits_val_def)

end
