(* ===== verification/Regex.thy ===== *)
theory Regex
  imports Common
begin

text \<open>
  The part of \<open>std::regex\<close> (ECMAScript grammar) the server uses: character classes, sequences,
  alternatives, greedy bounded and unbounded repetition, capture groups and the anchors. A match
  is the list of all ways to match in the order in which backtracking finds them; the first one
  is the result. \<open>regex_search\<close> tries the start positions from left to right.
\<close>

datatype rx =
    RCls "byte \<Rightarrow> bool"
  | RSeq "rx list"
  | RAlt rx rx
  | RRep rx nat nat
  | RStar rx
  | RGroup nat rx
  | RBol
  | REol

type_synonym caps = "nat \<rightharpoonup> string"
type_synonym rx_state = "nat \<times> caps"

fun rx_rep :: "(rx_state \<Rightarrow> rx_state list) \<Rightarrow> nat \<Rightarrow> nat \<Rightarrow> rx_state \<Rightarrow> rx_state list" where
  "rx_rep f m 0 st = (if m = 0 then [st] else [])"
| "rx_rep f m (Suc n) st =
     concat (map (rx_rep f (m - 1) n) (f st)) @ (if m = 0 then [st] else [])"

fun rx_match :: "string \<Rightarrow> rx \<Rightarrow> rx_state \<Rightarrow> rx_state list"
and rx_match_seq :: "string \<Rightarrow> rx list \<Rightarrow> rx_state \<Rightarrow> rx_state list" where
  "rx_match s (RCls P) (i, c) = (if i < length s \<and> P (s ! i) then [(i + 1, c)] else [])"
| "rx_match s (RSeq rs) st = rx_match_seq s rs st"
| "rx_match s (RAlt a b) st = rx_match s a st @ rx_match s b st"
| "rx_match s (RRep a m n) st = rx_rep (rx_match s a) m n st"
| "rx_match s (RStar a) st = rx_rep (rx_match s a) 0 (length s) st"
| "rx_match s (RGroup k a) (i, c) =
     map (\<lambda>(j, c'). (j, c'(k \<mapsto> take (j - i) (drop i s)))) (rx_match s a (i, c))"
| "rx_match s RBol (i, c) = (if i = 0 then [(i, c)] else [])"
| "rx_match s REol (i, c) = (if i = length s then [(i, c)] else [])"
| "rx_match_seq s [] st = [st]"
| "rx_match_seq s (r # rs) st = concat (map (rx_match_seq s rs) (rx_match s r st))"

fun rx_from :: "string \<Rightarrow> rx \<Rightarrow> nat list \<Rightarrow> (nat \<times> nat \<times> caps) option" where
  "rx_from s r [] = None"
| "rx_from s r (i # is) =
     (case rx_match s r (i, Map.empty) of
        [] \<Rightarrow> rx_from s r is
      | (j, c) # _ \<Rightarrow> Some (i, j, c))"

text \<open>The result: where the match starts and ends, and its captures.\<close>

definition regex_search :: "rx \<Rightarrow> string \<Rightarrow> (nat \<times> nat \<times> caps) option" where
  "regex_search r s = rx_from s r [0..<Suc (length s)]"

text \<open>\<open>sm[k].str()\<close>: empty when the group did not take part in the match.\<close>

definition cap_str :: "caps \<Rightarrow> nat \<Rightarrow> string" where
  "cap_str c k = (case c k of None \<Rightarrow> [] | Some t \<Rightarrow> t)"

definition rx_char :: "byte \<Rightarrow> rx" where
  "rx_char x = RCls (\<lambda>c. c = x)"

definition rx_digit :: rx where
  "rx_digit = RCls is_digit"

definition rx_opt :: "rx \<Rightarrow> rx" where
  "rx_opt r = RRep r 0 1"

definition is_hex :: "byte \<Rightarrow> bool" where
  "is_hex c \<longleftrightarrow> is_digit c \<or>
     (97 \<le> (of_char c :: nat) \<and> (of_char c :: nat) \<le> 102) \<or>
     (65 \<le> (of_char c :: nat) \<and> (of_char c :: nat) \<le> 70)"

section \<open>Repetition of a class\<close>

lemma rx_rep_cls_exact:
  "i \<le> length s \<Longrightarrow> rx_rep (rx_match s (RCls P)) n n (i, c) =
     (if i + n \<le> length s \<and> (\<forall>k < n. P (s ! (i + k))) then [(i + n, c)] else [])"
proof (induction n arbitrary: i)
  case (Suc n)
  have "(\<forall>k < Suc n. P (s ! (i + k))) \<longleftrightarrow> P (s ! i) \<and> (\<forall>k < n. P (s ! (Suc i + k)))"
    by (auto simp: less_Suc_eq_0_disj)
  with Suc.IH [of "Suc i"] Suc.prems show ?case by auto
qed auto

lemma rx_rep_cls_upto:
  assumes "\<forall>k < d. i + k < length s \<and> P (s ! (i + k))"
    "i + d = length s \<or> \<not> P (s ! (i + d))" "m \<le> d" "d \<le> n"
  shows "\<exists>rest. rx_rep (rx_match s (RCls P)) m n (i, c) = (i + d, c) # rest"
  using assms
proof (induction n arbitrary: i m d)
  case 0
  then show ?case by simp
next
  case (Suc n)
  show ?case
  proof (cases d)
    case 0
    with Suc.prems have "rx_match s (RCls P) (i, c) = []" by auto
    with 0 Suc.prems show ?thesis by simp
  next
    case (Suc d')
    from Suc.prems(1) \<open>d = Suc d'\<close> have h: "i < length s" "P (s ! i)" by (auto dest: spec [of _ 0])
    have "\<exists>rest. rx_rep (rx_match s (RCls P)) (m - 1) n (Suc i, c) = (Suc i + d', c) # rest"
    proof (rule Suc.IH)
      show "\<forall>k < d'. Suc i + k < length s \<and> P (s ! (Suc i + k))"
        using Suc.prems(1) \<open>d = Suc d'\<close> by (metis Suc_less_eq add_Suc_shift)
    qed (use Suc.prems \<open>d = Suc d'\<close> in auto)
    with h \<open>d = Suc d'\<close> show ?thesis by auto
  qed
qed

lemma rx_rep_at:
  assumes "s = pre @ ds @ post" "i = length pre" "\<forall>x \<in> set ds. P x" "post = [] \<or> \<not> P (hd post)"
    "m \<le> length ds" "length ds \<le> n"
  shows "\<exists>rest. rx_match s (RRep (RCls P) m n) (i, c) = (i + length ds, c) # rest"
proof -
  have "\<exists>rest. rx_rep (rx_match s (RCls P)) m n (i, c) = (i + length ds, c) # rest"
  proof (rule rx_rep_cls_upto)
    show "\<forall>k < length ds. i + k < length s \<and> P (s ! (i + k))"
      using assms by (auto simp: nth_append)
    show "i + length ds = length s \<or> \<not> P (s ! (i + length ds))"
      using assms by (cases post) (auto simp: nth_append)
  qed (use assms in auto)
  then show ?thesis by simp
qed

section \<open>First matches compose\<close>

lemma seq_first:
  assumes "rx_match s r st = x # xs" "rx_match_seq s rs x = y # ys"
  shows "\<exists>zs. rx_match_seq s (r # rs) st = y # zs"
  using assms by simp

lemma group_first:
  assumes "\<exists>xs. rx_match s r (i, c) = (j, c') # xs"
  shows "\<exists>xs. rx_match s (RGroup k r) (i, c) = (j, c'(k \<mapsto> take (j - i) (drop i s))) # xs"
  using assms by auto

lemma char_first:
  assumes "s = pre @ x # post" "i = length pre"
  shows "rx_match s (rx_char x) (i, c) = [(Suc i, c)]"
  using assms by (simp add: rx_char_def)

lemma regex_search_at_0:
  assumes "rx_match s r (0, Map.empty) = (j, c) # rest"
  shows "regex_search r s = Some (0, j, c)"
  using assms by (simp add: regex_search_def upt_conv_Cons del: upt_Suc)

section \<open>What a match can consume\<close>

text \<open>Every character class of the expression lies inside \<open>P\<close>.\<close>

fun rx_within :: "(byte \<Rightarrow> bool) \<Rightarrow> rx \<Rightarrow> bool" where
  "rx_within P (RCls Q) \<longleftrightarrow> (\<forall>c. Q c \<longrightarrow> P c)"
| "rx_within P (RSeq rs) \<longleftrightarrow> (\<forall>r \<in> set rs. rx_within P r)"
| "rx_within P (RAlt a b) \<longleftrightarrow> rx_within P a \<and> rx_within P b"
| "rx_within P (RRep a m n) \<longleftrightarrow> rx_within P a"
| "rx_within P (RStar a) \<longleftrightarrow> rx_within P a"
| "rx_within P (RGroup k a) \<longleftrightarrow> rx_within P a"
| "rx_within P RBol \<longleftrightarrow> True"
| "rx_within P REol \<longleftrightarrow> True"

definition spans :: "(byte \<Rightarrow> bool) \<Rightarrow> string \<Rightarrow> nat \<Rightarrow> nat \<Rightarrow> bool" where
  "spans P s i j \<longleftrightarrow> i \<le> j \<and> (\<forall>k. i \<le> k \<and> k < j \<longrightarrow> k < length s \<and> P (s ! k))"

lemma spans_refl [simp]: "spans P s i i"
  by (auto simp: spans_def)

lemma spans_trans: "spans P s i j \<Longrightarrow> spans P s j k \<Longrightarrow> spans P s i k"
  unfolding spans_def by (meson le_trans not_le)

lemma rx_rep_spans:
  assumes "\<And>st st'. st' \<in> set (f st) \<Longrightarrow> spans P s (fst st) (fst st')" "st' \<in> set (rx_rep f m n st)"
  shows "spans P s (fst st) (fst st')"
  using assms(2)
proof (induction n arbitrary: m st)
  case 0
  then show ?case by (simp split: if_splits)
next
  case (Suc n)
  show ?case
  proof (cases "st' = st")
    case False
    with Suc.prems obtain st1 where "st1 \<in> set (f st)" "st' \<in> set (rx_rep f (m - 1) n st1)"
      by (auto split: if_splits)
    with assms(1) Suc.IH show ?thesis by (blast intro: spans_trans)
  qed simp
qed

lemma rx_match_spans:
  "rx_within P r \<Longrightarrow> st' \<in> set (rx_match s r st) \<Longrightarrow> spans P s (fst st) (fst st')"
  "\<forall>r \<in> set rs. rx_within P r \<Longrightarrow> st' \<in> set (rx_match_seq s rs st) \<Longrightarrow> spans P s (fst st) (fst st')"
proof (induction s r st and s rs st arbitrary: st' and st' rule: rx_match_rx_match_seq.induct)
  case (1 s Q i c)
  then show ?case by (auto simp: spans_def less_Suc_eq split: if_splits)
next
  case (2 s rs st) then show ?case by simp
next
  case (3 s a b st)
  from "3.prems" consider "st' \<in> set (rx_match s a st)" | "st' \<in> set (rx_match s b st)" by auto
  then show ?case using 3 by cases simp_all
next
  case (4 s a m n st)
  have "spans P s (fst t) (fst t')" if "t' \<in> set (rx_match s a t)" for t t'
    using 4 that by simp
  then show ?case
    using rx_rep_spans [of "rx_match s a" P s st' m n st] 4(3) by simp
next
  case (5 s a st)
  have "spans P s (fst t) (fst t')" if "t' \<in> set (rx_match s a t)" for t t'
    using 5 that by simp
  then show ?case
    using rx_rep_spans [of "rx_match s a" P s st' 0 "length s" st] 5(3) by simp
next
  case (6 s k a i c)
  then show ?case by fastforce
next
  case (10 s r rs st)
  from 10(4) obtain t where t: "t \<in> set (rx_match s r st)" "st' \<in> set (rx_match_seq s rs t)"
    by auto
  have "spans P s (fst st) (fst t)" using 10(1,3) t(1) by simp
  moreover have "spans P s (fst t) (fst st')" using 10(2) [OF t(1)] 10(3) t(2) by simp
  ultimately show ?case by (rule spans_trans)
qed (simp_all split: if_splits)
end
