(* ===== verification/Options.thy ===== *)
theory Options
  imports Common SmBuf
begin

text \<open>
  The class \<open>Options\<close> (tftpOptions.h, tftpOptions.cpp): the parameters of a transfer as read
  from the request packet by \<open>buffer_parse\<close>. The packet occupies the first \<open>buf_size\<close> bytes
  of a receive buffer that is usually larger. The parser's position \<open>curr_pos\<close> never exceeds
  the buffer size by more than one, so it does not wrap; the difference
  \<open>buf_size-curr_pos\<close> is a \<open>size_t\<close> and does. Logging is left out.
\<close>

section \<open>State\<close>

record options =
  o_request_type :: srv_req
  o_filename :: string
  o_transfer_mode :: transf_mode
  o_blksize :: "bool \<times> int"
  o_timeout :: "bool \<times> int"
  o_tsize :: "bool \<times> int"
  o_windowsize :: "bool \<times> int"

definition options_new :: options where
  "options_new =
     \<lparr>o_request_type = srv_unknown, o_filename = [], o_transfer_mode = tm_unknown,
      o_blksize = (False, 512), o_timeout = (False, 10), o_tsize = (False, 0),
      o_windowsize = (False, 1)\<rparr>"

definition blksize :: "options \<Rightarrow> int" where "blksize opt = snd (o_blksize opt)"
definition timeout :: "options \<Rightarrow> int" where "timeout opt = snd (o_timeout opt)"
definition tsize :: "options \<Rightarrow> int" where "tsize opt = snd (o_tsize opt)"
definition windowsize_opt :: "options \<Rightarrow> int" where "windowsize_opt opt = snd (o_windowsize opt)"

definition was_set_blksize :: "options \<Rightarrow> bool" where "was_set_blksize opt = fst (o_blksize opt)"
definition was_set_timeout :: "options \<Rightarrow> bool" where "was_set_timeout opt = fst (o_timeout opt)"
definition was_set_tsize :: "options \<Rightarrow> bool" where "was_set_tsize opt = fst (o_tsize opt)"
definition was_set_windowsize :: "options \<Rightarrow> bool" where
  "was_set_windowsize opt = fst (o_windowsize opt)"

definition was_set_any :: "options \<Rightarrow> bool" where
  "was_set_any opt \<longleftrightarrow>
     was_set_blksize opt \<or> was_set_timeout opt \<or> was_set_tsize opt \<or> was_set_windowsize opt"

section \<open>Parsing a request\<close>

text \<open>
  The four stages of \<open>buffer_parse\<close>. A stage returns the flag \<open>ret\<close>, the position behind
  what it read, and the options.
\<close>

definition parse_request_type :: "buf \<Rightarrow> nat \<Rightarrow> options \<Rightarrow> (bool \<times> nat \<times> options) res" where
  "parse_request_type b curr_pos opt =
     (case (get_be b curr_pos :: 16 word res) of
        Inl e \<Rightarrow> Inl e
      | Inr w \<Rightarrow>
          (let rq_type = sint w in
           if rq_type = srv_req_num srv_read then
             Inr (True, curr_pos + 2, opt\<lparr>o_request_type := srv_read\<rparr>)
           else if rq_type = srv_req_num srv_write then
             Inr (True, curr_pos + 2, opt\<lparr>o_request_type := srv_write\<rparr>)
           else Inr (False, curr_pos, opt)))"

definition parse_filename :: "buf \<Rightarrow> nat \<Rightarrow> nat \<Rightarrow> options \<Rightarrow> (bool \<times> nat \<times> options) res" where
  "parse_filename b buf_size curr_pos opt =
     (case get_string b curr_pos (sz_sub buf_size curr_pos) of
        Inl e \<Rightarrow> Inl e
      | Inr s \<Rightarrow>
          if length s > 0 then Inr (True, curr_pos + length s + 1, opt\<lparr>o_filename := s\<rparr>)
          else Inr (False, curr_pos, opt\<lparr>o_filename := s\<rparr>))"

definition mode_of :: "string \<Rightarrow> transf_mode" where
  "mode_of curr_mod =
     (if curr_mod = ''netascii'' then tm_netascii
      else if curr_mod = ''octet'' then tm_octet
      else if curr_mod = ''binary'' then tm_binary
      else if curr_mod = ''mail'' then tm_mail
      else tm_unknown)"

definition parse_mode :: "buf \<Rightarrow> nat \<Rightarrow> nat \<Rightarrow> options \<Rightarrow> (bool \<times> nat \<times> options) res" where
  "parse_mode b buf_size curr_pos opt =
     (case get_string b curr_pos (sz_sub buf_size curr_pos) of
        Inl e \<Rightarrow> Inl e
      | Inr s \<Rightarrow>
          if length s > 0 then
            (let curr_mod = do_lower s in
             Inr (True, curr_pos + length curr_mod + 1, opt\<lparr>o_transfer_mode := mode_of curr_mod\<rparr>))
          else Inr (False, curr_pos, opt))"

text \<open>One option: only a value of decimal digits counts, and its name must be one of four.\<close>

definition set_option :: "options \<Rightarrow> string \<Rightarrow> string \<Rightarrow> options res" where
  "set_option opt str_opt str_val =
     (if is_digit_str str_val then
        (case stoi 10 str_val of
           Inl e \<Rightarrow> Inl e
         | Inr val \<Rightarrow>
             Inr (if str_opt = ''blksize'' then opt\<lparr>o_blksize := (True, val)\<rparr>
                  else if str_opt = ''timeout'' then opt\<lparr>o_timeout := (True, val)\<rparr>
                  else if str_opt = ''tsize'' then opt\<lparr>o_tsize := (True, val)\<rparr>
                  else if str_opt = ''windowsize'' then opt\<lparr>o_windowsize := (True, val)\<rparr>
                  else opt))
      else Inr opt)"

function parse_options :: "buf \<Rightarrow> nat \<Rightarrow> nat \<Rightarrow> options \<Rightarrow> options res" where
  "parse_options b buf_size curr_pos opt =
     (if curr_pos < buf_size then
        (case get_string b curr_pos (sz_sub buf_size curr_pos) of
           Inl e \<Rightarrow> Inl e
         | Inr s \<Rightarrow>
             (let str_opt = do_lower s; pos1 = curr_pos + length str_opt + 1 in
              if pos1 \<ge> buf_size then Inr opt
              else
                (case get_string b pos1 (sz_sub buf_size pos1) of
                   Inl e \<Rightarrow> Inl e
                 | Inr str_val \<Rightarrow>
                     (case set_option opt str_opt str_val of
                        Inl e \<Rightarrow> Inl e
                      | Inr opt' \<Rightarrow>
                          parse_options b buf_size (pos1 + length str_val + 1) opt'))))
      else Inr opt)"
  by pat_completeness auto
termination
  by (relation "measure (\<lambda>(b, buf_size, curr_pos, opt). buf_size - curr_pos)") auto

declare parse_options.simps [simp del]

definition buffer_parse :: "buf \<Rightarrow> nat \<Rightarrow> (bool \<times> options) res" where
  "buffer_parse b buf_size =
     (if \<not> buf_size \<ge> 2 then Inr (False, options_new)
      else
        (case parse_request_type b 0 options_new of
           Inl e \<Rightarrow> Inl e
         | Inr (ret, pos, opt) \<Rightarrow>
             if \<not> ret then Inr (False, opt)
             else
               (case parse_filename b buf_size pos opt of
                  Inl e \<Rightarrow> Inl e
                | Inr (ret, pos, opt) \<Rightarrow>
                    if \<not> ret then Inr (False, opt)
                    else
                      (case parse_mode b buf_size pos opt of
                         Inl e \<Rightarrow> Inl e
                       | Inr (ret, pos, opt) \<Rightarrow>
                           if \<not> ret then Inr (False, opt)
                           else
                             (case parse_options b buf_size pos opt of
                                Inl e \<Rightarrow> Inl e
                              | Inr opt \<Rightarrow> Inr (True, opt))))))"

section \<open>The request format\<close>

text \<open>
  What a client sends (RFC 1350 with the option extension of RFC 2347): opcode, file name, mode,
  then pairs of option name and value, every string with a terminating zero. This is the
  specification the parser is held against.
\<close>

fun pairs_bytes :: "(string \<times> string) list \<Rightarrow> byte list" where
  "pairs_bytes [] = []"
| "pairs_bytes ((n, v) # ps) = n @ NUL # v @ NUL # pairs_bytes ps"

definition request_bytes :: "nat \<Rightarrow> string \<Rightarrow> string \<Rightarrow> (string \<times> string) list \<Rightarrow> byte list" where
  "request_bytes opcode fname mode ps =
     be_bytes 2 opcode @ fname @ NUL # mode @ NUL # pairs_bytes ps"

fun apply_options :: "options \<Rightarrow> (string \<times> string) list \<Rightarrow> options res" where
  "apply_options opt [] = Inr opt"
| "apply_options opt ((n, v) # ps) =
     (case set_option opt (do_lower n) v of Inl e \<Rightarrow> Inl e | Inr opt' \<Rightarrow> apply_options opt' ps)"

definition text_ok :: "string \<Rightarrow> bool" where
  "text_ok s \<longleftrightarrow> s \<noteq> [] \<and> NUL \<notin> set s"

definition pairs_ok :: "(string \<times> string) list \<Rightarrow> bool" where
  "pairs_ok ps \<longleftrightarrow> (\<forall>(n, v) \<in> set ps. NUL \<notin> set n \<and> NUL \<notin> set v)"

lemma field_at:
  assumes "b = pre @ s @ NUL # rest" "NUL \<notin> set s" "p = length pre"
    "p + length s < e" "e \<le> length b" "vec_ok b"
  shows "get_string b p (sz_sub e p) = Inr s"
proof -
  have n: "sz_sub e p = e - p"
    using assms by (intro sz_sub_exact) (auto simp: vec_ok_def)
  have "take (e - p) (drop p b) = s @ NUL # take (e - p - Suc (length s)) rest"
    using assms by (simp add: take_Cons' )
  moreover have "get_string b p (e - p) = Inr (until_zero (take (e - p) (drop p b)))"
    using assms by (intro get_string_len) auto
  ultimately show ?thesis using n assms(2) by simp
qed

lemma parse_options_pairs:
  assumes "b = pre @ pairs_bytes ps @ rest" "buf_size = length pre + length (pairs_bytes ps)"
    "pairs_ok ps" "vec_ok b"
  shows "parse_options b buf_size (length pre) opt = apply_options opt ps"
  using assms
proof (induction ps arbitrary: pre opt)
  case Nil
  then show ?case by (simp add: parse_options.simps)
next
  case (Cons nv ps)
  obtain n v where nv: "nv = (n, v)" by force
  from Cons.prems nv have free: "NUL \<notin> set n" "NUL \<notin> set v" "pairs_ok ps"
    by (auto simp: pairs_ok_def)
  have g1: "get_string b (length pre) (sz_sub buf_size (length pre)) = Inr n"
    using Cons.prems nv free by (intro field_at [where rest = "v @ NUL # pairs_bytes ps @ rest"]) auto
  let ?p1 = "length pre + length n + 1"
  have g2: "get_string b ?p1 (sz_sub buf_size ?p1) = Inr v"
    using Cons.prems nv free
    by (intro field_at [where pre = "pre @ n @ [NUL]" and rest = "pairs_bytes ps @ rest"]) auto
  have IH: "parse_options b buf_size (?p1 + length v + 1) opt' = apply_options opt' ps" for opt'
    using Cons.prems nv free Cons.IH [of "pre @ n @ NUL # v @ [NUL]" opt'] by (simp add: add.assoc)
  have "length pre < buf_size" "\<not> buf_size \<le> ?p1"
    using Cons.prems nv by auto
  then show ?case
    using g1 g2 IH nv by (simp add: parse_options.simps [of b buf_size "length pre"] split: sum.splits)
qed

lemma get_be_opcode:
  assumes "b = be_bytes 2 k @ rest" "k < 2 ^ 15"
  shows "(get_be b 0 :: 16 word res) = Inr (of_nat k)" "sint (of_nat k :: 16 word) = int k"
proof -
  have "is_valid b 0 2" using assms by (intro is_validI) auto
  moreover have "be_val (take 2 (drop 0 b)) = k"
    using assms be_val_be_bytes [of 2 k] by simp
  ultimately show "(get_be b 0 :: 16 word res) = Inr (of_nat k)"
    by (simp add: be16.get_eq)
  have "signed_take_bit 15 (int k) = int k"
    using assms by (simp add: signed_take_bit_int_eq_self)
  then show "sint (of_nat k :: 16 word) = int k"
    by (simp add: signed_of_nat)
qed

lemma parse_request_type_ok:
  assumes "b = be_bytes 2 k @ rest" "k = 1 \<or> k = 2"
  shows "parse_request_type b 0 opt =
    Inr (True, 2, opt\<lparr>o_request_type := (if k = 1 then srv_read else srv_write)\<rparr>)"
proof -
  from assms(2) have "k < 2 ^ 15" by auto
  from get_be_opcode [OF assms(1) this] assms(2) show ?thesis
    by (auto simp: parse_request_type_def)
qed

lemma parse_request_eq:
  assumes b: "b = request_bytes k fname mode ps @ rest" and vec: "vec_ok b"
    and k: "k = 1 \<or> k = 2" and f: "text_ok fname" and m: "text_ok mode" and ps: "pairs_ok ps"
  shows "buffer_parse b (length (request_bytes k fname mode ps)) =
    (case apply_options
            (options_new\<lparr>o_request_type := (if k = 1 then srv_read else srv_write),
                         o_filename := fname, o_transfer_mode := mode_of (do_lower mode)\<rparr>) ps of
       Inl e \<Rightarrow> Inl e | Inr opt \<Rightarrow> Inr (True, opt))"
proof -
  let ?n = "length (request_bytes k fname mode ps)"
  let ?o = "options_new\<lparr>o_request_type := (if k = 1 then srv_read else srv_write)\<rparr>"
  have n: "?n = 4 + length fname + length mode + length (pairs_bytes ps)"
    by (simp add: request_bytes_def)
  have t: "parse_request_type b 0 options_new = Inr (True, 2, ?o)"
    using b k by (intro parse_request_type_ok [where rest = "drop 2 b"]) (auto simp: request_bytes_def)
  have gf: "get_string b 2 (sz_sub ?n 2) = Inr fname"
    using b vec f by (intro field_at [where pre = "be_bytes 2 k" and rest = "mode @ NUL # pairs_bytes ps @ rest"])
      (auto simp: request_bytes_def text_ok_def)
  define p where "p = 2 + length fname + 1"
  define q where "q = p + length mode + 1"
  have pf: "parse_filename b ?n 2 opt = Inr (True, p, opt\<lparr>o_filename := fname\<rparr>)" for opt
    using f by (simp add: parse_filename_def gf text_ok_def p_def)
  have "get_string b p (sz_sub ?n p) = Inr mode"
    using b vec m by (intro field_at [where pre = "be_bytes 2 k @ fname @ [NUL]" and rest = "pairs_bytes ps @ rest"])
      (auto simp: request_bytes_def text_ok_def p_def)
  then have pm: "parse_mode b ?n p opt = Inr (True, q, opt\<lparr>o_transfer_mode := mode_of (do_lower mode)\<rparr>)" for opt
    using m by (simp add: parse_mode_def text_ok_def q_def)
  have q: "q = length (be_bytes 2 k @ fname @ NUL # mode @ [NUL])"
    by (simp add: q_def p_def)
  have po: "parse_options b ?n q opt = apply_options opt ps" for opt
    unfolding q using b vec ps by (intro parse_options_pairs [where rest = rest]) (auto simp: request_bytes_def)
  have two: "2 \<le> ?n" using n by simp
  show ?thesis
    unfolding buffer_parse_def t using two by (simp add: pf pm po)
qed

text \<open>
  C18. \<open>buffer_parse\<close> inverts the request format: a well-formed read or write request at the
  start of a receive buffer, whatever bytes follow it, is accepted, and yields its operation, its
  file name, the transfer mode of its mode string (in any letter case) and the effect of its
  options in order.
\<close>

theorem buffer_parse_request:
  assumes b: "b = request_bytes k fname mode ps @ rest" and vec: "vec_ok b"
    and k: "k = 1 \<or> k = 2" and f: "text_ok fname" and m: "text_ok mode" and ps: "pairs_ok ps"
  shows "buffer_parse b (length (request_bytes k fname mode ps)) =
    (case apply_options
            (options_new\<lparr>o_request_type := (if k = 1 then srv_read else srv_write),
                         o_filename := fname, o_transfer_mode := mode_of (do_lower mode)\<rparr>) ps of
       Inl e \<Rightarrow> Inl e | Inr opt \<Rightarrow> Inr (True, opt))"
  by (rule parse_request_eq [OF assms])

theorem buffer_parse_request_witness:
  "\<exists>b. b = request_bytes 1 ''fw.bin'' ''OCTET'' [(''blkSize'', ''1024'')] @ ''garbage'' \<and>
     buffer_parse b (length (request_bytes 1 ''fw.bin'' ''OCTET'' [(''blkSize'', ''1024'')])) =
       Inr (True, options_new\<lparr>o_request_type := srv_read, o_filename := ''fw.bin'',
                              o_transfer_mode := tm_octet, o_blksize := (True, 1024)\<rparr>)"
proof -
  let ?ps = "[(''blkSize'', ''1024'')]"
  let ?b = "request_bytes 1 ''fw.bin'' ''OCTET'' ?ps @ ''garbage''"
  have v: "vec_ok ?b" by (simp add: vec_ok_def request_bytes_def)
  have ev: "apply_options (options_new\<lparr>o_request_type := (if (1 :: nat) = 1 then srv_read else srv_write),
      o_filename := ''fw.bin'', o_transfer_mode := mode_of (do_lower ''OCTET'')\<rparr>) ?ps =
      Inr (options_new\<lparr>o_request_type := srv_read, o_filename := ''fw.bin'',
                       o_transfer_mode := tm_octet, o_blksize := (True, 1024)\<rparr>)"
    by code_simp
  have "buffer_parse ?b (length (request_bytes 1 ''fw.bin'' ''OCTET'' ?ps)) =
      Inr (True, options_new\<lparr>o_request_type := srv_read, o_filename := ''fw.bin'',
                             o_transfer_mode := tm_octet, o_blksize := (True, 1024)\<rparr>)"
    using buffer_parse_request [OF refl v] ev by (simp add: text_ok_def pairs_ok_def)
  then show ?thesis by blast
qed

section \<open>Errors of the parser\<close>

lemma get_in_packet:
  assumes "p < e" "e \<le> length b" "vec_ok b"
  shows "get_string b p (sz_sub e p) = Inr (until_zero (take (e - p) (drop p b)))"
proof -
  have "sz_sub e p = e - p" using assms by (intro sz_sub_exact) (auto simp: vec_ok_def)
  moreover have "get_string b p (e - p) = Inr (until_zero (take (e - p) (drop p b)))"
    using assms by (intro get_string_len) auto
  ultimately show ?thesis by simp
qed

lemma set_option_error: "set_option opt n v = Inl e \<Longrightarrow> e = Out_of_range"
  by (auto simp: set_option_def stoi_digits split: if_splits sum.splits)

lemma parse_options_error:
  assumes "buf_size \<le> length b" "vec_ok b" "parse_options b buf_size curr_pos opt = Inl e"
  shows "e = Out_of_range"
  using assms
proof (induction b buf_size curr_pos opt rule: parse_options.induct)
  case (1 b buf_size curr_pos opt)
  show ?case
  proof (cases "curr_pos < buf_size")
    case False
    with "1.prems" show ?thesis by (simp add: parse_options.simps)
  next
    case True
    define s where "s = until_zero (take (buf_size - curr_pos) (drop curr_pos b))"
    define p where "p = curr_pos + length (do_lower s) + 1"
    have g: "get_string b curr_pos (sz_sub buf_size curr_pos) = Inr s"
      unfolding s_def using True "1.prems" by (intro get_in_packet) auto
    have p: "p < buf_size"
      using "1.prems"(3) True by (rule_tac ccontr) (simp add: parse_options.simps [of b] g p_def)
    define v where "v = until_zero (take (buf_size - p) (drop p b))"
    have gv: "get_string b p (sz_sub buf_size p) = Inr v"
      unfolding v_def using p "1.prems" by (intro get_in_packet) auto
    have eq: "parse_options b buf_size curr_pos opt =
      (case set_option opt (do_lower s) v of Inl e \<Rightarrow> Inl e
       | Inr opt' \<Rightarrow> parse_options b buf_size (p + length v + 1) opt')"
      using True p gv by (simp add: parse_options.simps [of b buf_size curr_pos] g p_def Let_def
          split: sum.split)
    show ?thesis
    proof (cases "set_option opt (do_lower s) v")
      case (Inl x)
      with eq "1.prems"(3) show ?thesis by (auto dest: set_option_error)
    next
      case (Inr opt')
      with eq "1.prems" have "parse_options b buf_size (p + length v + 1) opt' = Inl e" by simp
      then show ?thesis
        using "1.IH" [OF True g refl refl _ _ Inr] p "1.prems"(1,2) gv by (simp add: p_def)
    qed
  qed
qed

lemma until_zero_shorter: "NUL \<in> set xs \<Longrightarrow> length (until_zero xs) < length xs"
  by (induction xs) (auto simp: until_zero_def)

text \<open>The name and the mode of a packet that ends with a zero byte.\<close>

lemma name_in_packet:
  assumes "vec_ok b" "2 < n" "n \<le> length b" "b ! (n - 1) = NUL"
  obtains s where "get_string b 2 (sz_sub n 2) = Inr s" "2 + length s + 1 \<le> n"
proof -
  let ?l = "take (n - 2) (drop 2 b)"
  have "?l ! (n - 3) = NUL" "n - 3 < length ?l" using assms by (auto simp: numeral_eq_Suc Suc_diff_Suc)
  then have "NUL \<in> set ?l" by (metis nth_mem)
  then have "2 + length (until_zero ?l) + 1 \<le> n" using until_zero_shorter [of ?l] assms by simp
  moreover have "get_string b 2 (sz_sub n 2) = Inr (until_zero ?l)" using assms by (intro get_in_packet) auto
  ultimately show ?thesis using that by blast
qed

lemma mode_in_packet:
  assumes "vec_ok b" "n \<le> length b" "p \<le> n"
  shows "(\<exists>m. get_string b p (sz_sub n p) = Inr m) \<or>
    (n = length b \<and> get_string b p (sz_sub n p) = Inl Invalid_argument)"
proof (cases "p < n")
  case True
  with assms get_in_packet [of p n b] show ?thesis by simp
next
  case False
  then have "p = n" using assms(3) by simp
  moreover have "sz_sub n n = 0" using assms by (simp add: sz_sub_exact vec_ok_def)
  ultimately show ?thesis
    using assms get_string_rest [of n b]
    by (cases "n < length b") (auto simp: get_string_def check_offset_def is_valid_def)
qed



text \<open>
  C20. A request whose file name is not terminated inside the packet takes the parser out of
  bounds: the remaining length \<open>buf_size-curr_pos\<close> wraps to \<open>2 ^ 64 - 1\<close>, the bounds check
  wraps as well and accepts it, and the mode is searched in a range that ends before it begins.
\<close>

theorem unterminated_name_undefined:
  assumes "vec_ok b" "b = be_bytes 2 k @ fname @ rest" "k = 1 \<or> k = 2" "text_ok fname" "1 < length rest"
  shows "buffer_parse b (2 + length fname) = Inl Undefined"
proof -
  define n where "n = 2 + length fname"
  have big: "n + 1 < length b" "n + 1 < 2 ^ 63" "0 < length fname"
    using assms by (auto simp: n_def vec_ok_def text_ok_def)
  have t: "parse_request_type b 0 options_new =
      Inr (True, 2, options_new\<lparr>o_request_type := (if k = 1 then srv_read else srv_write)\<rparr>)"
    using assms by (intro parse_request_type_ok) auto
  have "get_string b 2 (sz_sub n 2) = Inr (until_zero (take (n - 2) (drop 2 b)))"
    using big assms by (intro get_in_packet) (auto simp: n_def)
  moreover have "take (n - 2) (drop 2 b) = fname" using assms by (simp add: n_def)
  ultimately have gf: "get_string b 2 (sz_sub n 2) = Inr fname"
    using assms by (simp add: text_ok_def)
  have w: "sz_sub n (n + 1) = 2 ^ 64 - 1"
    using big by (subst sz_sub_wraps) auto
  have "is_valid b (n + 1) (2 ^ 64 - 1)"
    using big by (simp add: is_valid_def sz_add_def)
  moreover have "\<not> n + 1 + (2 ^ 64 - 1) \<le> length b"
    using assms(1) by (simp add: vec_ok_def)
  ultimately have gm: "get_string b (n + 1) (sz_sub n (n + 1)) = Inl Undefined"
    unfolding w by (simp add: get_string_def check_offset_def)
  have pf: "parse_filename b n 2 opt = Inr (True, n + 1, opt\<lparr>o_filename := fname\<rparr>)" for opt
    using big(3) by (simp add: parse_filename_def gf) (simp add: n_def)
  have pm: "parse_mode b n (n + 1) opt = Inl Undefined" for opt
    by (simp only: parse_mode_def gm sum.case)
  have "2 \<le> n" by (simp add: n_def)
  then show ?thesis
    unfolding n_def [symmetric] buffer_parse_def t by (simp only: pf pm sum.case prod.case) simp
qed

theorem unterminated_name_undefined_witness:
  "buffer_parse (be_bytes 2 1 @ ''firmware'' @ [NUL, NUL]) 10 = Inl Undefined"
proof -
  have h: "vec_ok (be_bytes 2 1 @ ''firmware'' @ [NUL, NUL])" "text_ok ''firmware''"
    by (simp_all add: vec_ok_def text_ok_def)
  show ?thesis using unterminated_name_undefined [OF h(1) refl _ h(2)] by simp
qed

text \<open>
  A request that ends right behind its file name is not rejected: the remaining length is 0,
  which \<open>get_string\<close> takes to mean "up to the end of the buffer", so the mode is read from the
  bytes an earlier, longer packet left in the receive buffer.
\<close>

theorem missing_mode_reads_stale_bytes:
  assumes "vec_ok b" "b = be_bytes 2 k @ fname @ NUL # stale @ NUL # rest" "k = 1 \<or> k = 2"
    "text_ok fname" "text_ok stale"
  shows "buffer_parse b (2 + length fname + 1) =
    Inr (True, options_new\<lparr>o_request_type := (if k = 1 then srv_read else srv_write),
                           o_filename := fname, o_transfer_mode := mode_of (do_lower stale)\<rparr>)"
proof -
  define n where "n = 2 + length fname + 1"
  define q where "q = n + length stale + 1"
  have big: "n < length b" "n < 2 ^ 63" using assms by (auto simp: n_def vec_ok_def)
  have t: "parse_request_type b 0 options_new =
      Inr (True, 2, options_new\<lparr>o_request_type := (if k = 1 then srv_read else srv_write)\<rparr>)"
    using assms by (intro parse_request_type_ok) auto
  have "get_string b 2 (sz_sub n 2) = Inr fname"
    using assms by (intro field_at [where pre = "be_bytes 2 k" and rest = "stale @ NUL # rest"])
      (auto simp: n_def text_ok_def)
  then have pf: "parse_filename b n 2 opt = Inr (True, n, opt\<lparr>o_filename := fname\<rparr>)" for opt
    using assms by (simp add: parse_filename_def n_def text_ok_def)
  have "drop n b = stale @ NUL # rest" using assms by (simp add: n_def)
  then have "get_string b n 0 = Inr stale"
    using big assms get_string_rest [of n b] by (simp add: text_ok_def)
  moreover have "sz_sub n n = 0" using big by (simp add: sz_sub_exact)
  ultimately have pm: "parse_mode b n n opt = Inr (True, q, opt\<lparr>o_transfer_mode := mode_of (do_lower stale)\<rparr>)" for opt
    using assms by (simp add: parse_mode_def text_ok_def q_def)
  have po: "parse_options b n q opt = Inr opt" for opt
    by (simp add: parse_options.simps q_def)
  have "2 \<le> n" by (simp add: n_def)
  then show ?thesis
    unfolding n_def [symmetric] buffer_parse_def t by (simp add: pf pm po)
qed

theorem missing_mode_reads_stale_bytes_witness:
  "buffer_parse (be_bytes 2 1 @ ''image.bin'' @ NUL # ''octet'' @ NUL # replicate 4 NUL) 12 =
     Inr (True, options_new\<lparr>o_request_type := srv_read, o_filename := ''image.bin'',
                            o_transfer_mode := tm_octet\<rparr>) \<and>
   buffer_parse (be_bytes 2 1 @ ''image.bin'' @ NUL # replicate 10 NUL) 12 =
     Inr (False, options_new\<lparr>o_request_type := srv_read, o_filename := ''image.bin''\<rparr>)"
proof -
  let ?b = "be_bytes 2 1 @ ''image.bin'' @ NUL # ''octet'' @ NUL # replicate 4 NUL"
  have h: "vec_ok ?b" "text_ok ''image.bin''" "text_ok ''octet''"
    by (simp_all add: vec_ok_def text_ok_def)
  have "mode_of (do_lower ''octet'') = tm_octet" by code_simp
  then have "buffer_parse ?b 12 =
     Inr (True, options_new\<lparr>o_request_type := srv_read, o_filename := ''image.bin'',
                            o_transfer_mode := tm_octet\<rparr>)"
    using missing_mode_reads_stale_bytes [OF h(1) refl _ h(2,3)] by simp
  moreover have "buffer_parse (be_bytes 2 1 @ ''image.bin'' @ NUL # replicate 10 NUL) 12 =
     Inr (False, options_new\<lparr>o_request_type := srv_read, o_filename := ''image.bin''\<rparr>)"
    by code_simp
  ultimately show ?thesis by blast
qed

lemma apply_options_out_of_range:
  assumes "(n, v) \<in> set ps" "is_digit_str v" "2 ^ 31 \<le> digits_val 10 v"
  shows "apply_options opt ps = Inl Out_of_range"
  using assms
proof (induction ps arbitrary: opt)
  case (Cons p ps)
  obtain n' v' where p: "p = (n', v')" by force
  show ?case
  proof (cases "v' = v")
    case True
    with Cons.prems p show ?thesis by (simp add: set_option_def stoi_digits)
  next
    case False
    with Cons.prems p have "(n, v) \<in> set ps" by auto
    with Cons p show ?thesis
      using set_option_error [of opt "do_lower n'" v'] by (auto split: sum.splits)
  qed
qed simp

text \<open>
  An option value of digits that does not fit an \<open>int\<close> makes \<open>std::stoi\<close> throw out of
  \<open>buffer_parse\<close>, also when the option's name is unknown and its value would not be used.
\<close>

theorem large_option_value_throws:
  assumes "b = request_bytes k fname mode ps @ rest" "vec_ok b" "k = 1 \<or> k = 2"
    "text_ok fname" "text_ok mode" "pairs_ok ps"
    "(n, v) \<in> set ps" "is_digit_str v" "2 ^ 31 \<le> digits_val 10 v"
  shows "buffer_parse b (length (request_bytes k fname mode ps)) = Inl Out_of_range"
  unfolding parse_request_eq [OF assms(1-6)]
  by (simp add: apply_options_out_of_range [OF assms(7-9)])

theorem large_option_value_throws_witness:
  "buffer_parse (request_bytes 1 ''a'' ''octet'' [(''x'', ''2147483648'')])
     (length (request_bytes 1 ''a'' ''octet'' [(''x'', ''2147483648'')])) = Inl Out_of_range"
proof -
  let ?ps = "[(''x'', ''2147483648'')]"
  have h: "vec_ok (request_bytes 1 ''a'' ''octet'' ?ps @ [])" "text_ok ''a''" "text_ok ''octet''" "pairs_ok ?ps"
    by (simp_all add: vec_ok_def text_ok_def pairs_ok_def request_bytes_def)
  have d: "is_digit_str ''2147483648''" "2 ^ 31 \<le> digits_val 10 ''2147483648''"
    by code_simp+
  show ?thesis
    using large_option_value_throws [OF refl h(1) _ h(2-4) _ d, of "''x''"] by simp
qed

end
