(* ===== verification/FileStream.thy ===== *)
theory FileStream
  imports Prelude
begin

text \<open>
  The file streams of the C++ library as the data manager uses them. A \<open>std::ifstream\<close> reads a
  file that does not change while it is open; a \<open>std::ofstream\<close> writes a file that was truncated
  when it was opened, with the exception mask of \<open>failbit\<close> set. The state bits behave as the
  standard says: \<open>tellg\<close>, \<open>seekg\<close> and \<open>read\<close> first build a sentry, which sets
  \<open>failbit\<close> on a stream that is not good; \<open>seekg\<close> clears \<open>eofbit\<close> before; a short
  \<open>read\<close> sets both bits.
\<close>

section \<open>Input streams\<close>

record ifstream =
  is_opened :: bool
  is_data :: "byte list"
  is_pos :: nat
  is_eof :: bool
  is_fail :: bool

definition ifs_closed :: ifstream where
  "ifs_closed = \<lparr>is_opened = False, is_data = [], is_pos = 0, is_eof = False, is_fail = False\<rparr>"

definition ifs_opened :: "byte list \<Rightarrow> ifstream" where
  "ifs_opened bs = \<lparr>is_opened = True, is_data = bs, is_pos = 0, is_eof = False, is_fail = False\<rparr>"

definition ifs_sentry :: "ifstream \<Rightarrow> ifstream" where
  "ifs_sentry f = (if is_eof f \<or> is_fail f then f\<lparr>is_fail := True\<rparr> else f)"

definition ifs_tellg :: "ifstream \<Rightarrow> int \<times> ifstream" where
  "ifs_tellg f = (let f1 = ifs_sentry f in (if is_fail f1 then - 1 else int (is_pos f1), f1))"

text \<open>\<open>seekg(position, beg)\<close>: the offset is a signed 64 bit number.\<close>

definition ifs_seekg :: "ifstream \<Rightarrow> nat \<Rightarrow> ifstream" where
  "ifs_seekg f position =
     (let f1 = ifs_sentry (f\<lparr>is_eof := False\<rparr>)
      in if is_fail f1 then f1
         else if ssize_of position < 0 then f1\<lparr>is_fail := True\<rparr>
         else f1\<lparr>is_pos := position\<rparr>)"

text \<open>\<open>read\<close>: the bytes that were stored in the caller's memory, and the stream.\<close>

definition ifs_read :: "ifstream \<Rightarrow> nat \<Rightarrow> byte list \<times> ifstream" where
  "ifs_read f n =
     (let f1 = ifs_sentry f
      in if is_fail f1 then ([], f1)
         else let got = take n (drop (is_pos f1) (is_data f1));
                  f2 = f1\<lparr>is_pos := is_pos f1 + length got\<rparr>
              in (got, if length got < n then f2\<lparr>is_eof := True, is_fail := True\<rparr> else f2))"

definition ifs_close :: "ifstream \<Rightarrow> ifstream" where
  "ifs_close f = (if is_opened f then f\<lparr>is_opened := False\<rparr> else f\<lparr>is_fail := True\<rparr>)"

section \<open>Output streams\<close>

record ofstream =
  os_opened :: bool
  os_data :: "byte list"
  os_pos :: nat
  os_bad :: bool
  os_fail :: bool

definition ofs_closed :: ofstream where
  "ofs_closed = \<lparr>os_opened = False, os_data = [], os_pos = 0, os_bad = False, os_fail = False\<rparr>"

definition ofs_opened :: ofstream where
  "ofs_opened = \<lparr>os_opened = True, os_data = [], os_pos = 0, os_bad = False, os_fail = False\<rparr>"

definition ofs_tellp :: "ofstream \<Rightarrow> int" where
  "ofs_tellp f = (if os_fail f \<or> os_bad f then - 1 else int (os_pos f))"

definition ofs_seekp :: "ofstream \<Rightarrow> nat \<Rightarrow> ofstream res" where
  "ofs_seekp f position =
     (if os_fail f \<or> os_bad f then Inr f
      else if ssize_of position < 0 then Inl Ios_failure
      else Inr (f\<lparr>os_pos := position\<rparr>))"

text \<open>A write past the end of the file fills the gap with zero bytes.\<close>

definition overlay :: "byte list \<Rightarrow> nat \<Rightarrow> byte list \<Rightarrow> byte list" where
  "overlay d p bs = take p (d @ replicate (p - length d) NUL) @ bs @ drop (p + length bs) d"

text \<open>\<open>write\<close>: the flag says whether the device takes the data; if not, \<open>badbit\<close> is set, which
  does not throw. On a stream that is not good the sentry sets \<open>failbit\<close>, which throws.\<close>

definition ofs_write :: "ofstream \<Rightarrow> byte list \<Rightarrow> bool \<Rightarrow> ofstream res" where
  "ofs_write f bs dev_ok =
     (if os_fail f \<or> os_bad f then Inl Ios_failure
      else if dev_ok then
        Inr (f\<lparr>os_data := overlay (os_data f) (os_pos f) bs, os_pos := os_pos f + length bs\<rparr>)
      else Inr (f\<lparr>os_bad := True\<rparr>))"

text \<open>\<open>close\<close> writes what is still buffered; if the device refuses it, \<open>failbit\<close> is set.\<close>

definition ofs_close :: "ofstream \<Rightarrow> bool \<Rightarrow> ofstream res" where
  "ofs_close f dev_ok = (if os_opened f \<and> dev_ok then Inr (f\<lparr>os_opened := False\<rparr>) else Inl Ios_failure)"

section \<open>Lemmas\<close>

lemma length_overlay [simp]: "length (overlay d p bs) = max (length d) (p + length bs)"
  by (auto simp: overlay_def)

lemma overlay_at_end: "p = length d \<Longrightarrow> overlay d p bs = d @ bs"
  by (simp add: overlay_def)

lemma overlay_again: "overlay (overlay d p bs) p bs = overlay d p bs"
  by (simp add: overlay_def)

lemma take_overlay: "p \<le> length d \<Longrightarrow> take p (overlay d p bs) = take p d"
  by (simp add: overlay_def)

lemma ifs_tellg_good:
  "\<not> is_eof f \<Longrightarrow> \<not> is_fail f \<Longrightarrow> ifs_tellg f = (int (is_pos f), f)"
  by (simp add: ifs_tellg_def ifs_sentry_def)

lemma ifs_seekg_good:
  "\<not> is_fail f \<Longrightarrow> position < 2 ^ 63 \<Longrightarrow> ifs_seekg f position = f\<lparr>is_pos := position, is_eof := False\<rparr>"
  by (simp add: ifs_seekg_def ifs_sentry_def ssize_of_def)

lemma ifs_read_good:
  "\<not> is_eof f \<Longrightarrow> \<not> is_fail f \<Longrightarrow> is_pos f + n \<le> length (is_data f) \<Longrightarrow>
     ifs_read f n = (take n (drop (is_pos f) (is_data f)), f\<lparr>is_pos := is_pos f + n\<rparr>)"
  by (simp add: ifs_read_def ifs_sentry_def Let_def)

lemma ifs_read_short:
  "\<not> is_eof f \<Longrightarrow> \<not> is_fail f \<Longrightarrow> is_pos f \<le> length (is_data f) \<Longrightarrow> length (is_data f) < is_pos f + n \<Longrightarrow>
     ifs_read f n = (drop (is_pos f) (is_data f),
       f\<lparr>is_pos := length (is_data f), is_eof := True, is_fail := True\<rparr>)"
  by (simp add: ifs_read_def ifs_sentry_def Let_def)

text \<open>A failed stream stays as it is: nothing is read any more.\<close>

lemma ifs_failed:
  assumes "is_fail f"
  shows "ifs_tellg f = (- 1, f)" "is_fail (ifs_seekg f p)" "ifs_read f n = ([], f)"
  using assms by (simp_all add: ifs_tellg_def ifs_seekg_def ifs_read_def ifs_sentry_def Let_def)

lemma ifs_stable [simp]:
  "is_data (ifs_sentry f) = is_data f" "is_opened (ifs_sentry f) = is_opened f"
  "is_data (snd (ifs_tellg f)) = is_data f" "is_opened (snd (ifs_tellg f)) = is_opened f"
  "is_data (ifs_seekg f p) = is_data f" "is_opened (ifs_seekg f p) = is_opened f"
  "is_data (snd (ifs_read f n)) = is_data f" "is_opened (snd (ifs_read f n)) = is_opened f"
  by (simp_all add: ifs_sentry_def ifs_tellg_def ifs_seekg_def ifs_read_def Let_def)

end
