(* ===== verification/DataMgr.thy ===== *)
theory DataMgr
  imports Regex Options FileStream
begin

text \<open>
  Class \<open>DataMgr\<close> (\<open>tftpDataMgr.h\<close>, \<open>tftpDataMgr.cpp\<close>): the abstract data manager a session
  works with. Its fields and the two methods it implements are definitions; the pure virtual
  methods are the parameters of two locales, one for a manager that delivers a file in blocks
  (\<open>read\<close>) and one for a manager that stores blocks (\<open>write\<close>). What a session relies on
  is proved from their laws. The class \<open>DataMgrFile\<close> interprets both.
\<close>

section \<open>The fields and methods of the class\<close>

record data_mgr =
  request_type :: srv_req
  file_size :: nat
  has_error_cb :: bool

definition data_mgr_new :: data_mgr where
  "data_mgr_new = \<lparr>request_type = srv_unknown, file_size = 0, has_error_cb = False\<rparr>"

type_synonym dm_error = "(u16 \<times> string) option"

text \<open>\<open>set_error_if_first\<close>: the error passed to the callback, if there is one.\<close>

definition dm_set_error :: "'a data_mgr_scheme \<Rightarrow> u16 \<Rightarrow> string \<Rightarrow> dm_error" where
  "dm_set_error d e_cod e_msg = (if has_error_cb d then Some (e_cod, e_msg) else None)"

text \<open>The template \<open>([a-fA-F0-9]{32})\<close> of \<open>tftpCommon.h\<close>.\<close>

definition regex_template_md5 :: rx where
  "regex_template_md5 = RGroup 1 (RRep (RCls is_hex) 32 32)"

definition match_md5 :: "string \<Rightarrow> bool" where
  "match_md5 val =
     (case regex_search regex_template_md5 val of
        None \<Rightarrow> False
      | Some (i, j, _) \<Rightarrow> length (take i val) = 0 \<and> length (drop j val) = 0)"

section \<open>Matching of md5 sums\<close>

lemma md5_match_at:
  "i \<le> length s \<Longrightarrow> rx_match s regex_template_md5 (i, c) =
     (if i + 32 \<le> length s \<and> (\<forall>k < 32. is_hex (s ! (i + k)))
      then [(i + 32, c(1 \<mapsto> take 32 (drop i s)))] else [])"
  by (simp add: regex_template_md5_def rx_rep_cls_exact)

lemma rx_from_md5:
  "\<forall>i \<in> set is. i \<le> length s \<Longrightarrow> rx_from s regex_template_md5 is = Some (i, j, c) \<Longrightarrow>
     i \<in> set is \<and> j = i + 32 \<and> j \<le> length s \<and> (\<forall>k < 32. is_hex (s ! (i + k))) \<and>
     cap_str c 1 = take 32 (drop i s)"
  by (induction "is") (auto simp: md5_match_at cap_str_def split: if_splits)

text \<open>The first match of the template is a run of 32 hexadecimal digits, which it captures.\<close>

lemma regex_search_md5:
  assumes "regex_search regex_template_md5 s = Some (i, j, c)"
  shows "j = i + 32" "j \<le> length s" "\<forall>k < 32. is_hex (s ! (i + k))" "cap_str c 1 = take 32 (drop i s)"
  using rx_from_md5 [of "[0..<Suc (length s)]" s i j c] assms
  by (auto simp: regex_search_def simp del: upt_Suc)

lemma regex_search_md5_at_0:
  "32 \<le> length s \<Longrightarrow> \<forall>k < 32. is_hex (s ! k) \<Longrightarrow>
     regex_search regex_template_md5 s = Some (0, 32, Map.empty(1 \<mapsto> take 32 s))"
  by (rule regex_search_at_0 [where rest = "[]"]) (simp add: md5_match_at)

text \<open>
  C26. \<open>match_md5\<close> recognises exactly the names of 32 hexadecimal digits.
\<close>

theorem match_md5_iff: "match_md5 val \<longleftrightarrow> length val = 32 \<and> list_all is_hex val"
  unfolding list_all_iff
proof
  assume "match_md5 val"
  then obtain i j c where m: "regex_search regex_template_md5 val = Some (i, j, c)"
    and ij: "i = 0 \<or> val = []" "length val \<le> j"
    by (auto simp: match_md5_def min_def split: option.splits if_splits)
  have j: "j = i + 32" "j \<le> length val" "\<forall>k < 32. is_hex (val ! (i + k))"
    using regex_search_md5 [OF m] by auto
  then have "i = 0" "j = length val" using ij by auto
  then show "length val = 32 \<and> (\<forall>ch \<in> set val. is_hex ch)"
    using j by (auto simp: in_set_conv_nth)
next
  assume "length val = 32 \<and> (\<forall>ch \<in> set val. is_hex ch)"
  then show "match_md5 val"
    using regex_search_md5_at_0 [of val] by (simp add: match_md5_def)
qed

section \<open>Blocks of a file\<close>

text \<open>Block \<open>k\<close> (numbered from 1, as the protocol does) of size \<open>n\<close>.\<close>

definition block :: "nat \<Rightarrow> byte list \<Rightarrow> nat \<Rightarrow> byte list" where
  "block n fl k = take n (drop ((k - 1) * n) fl)"

text \<open>The number of the last block: the first one that is not full, possibly empty.\<close>

definition last_block :: "nat \<Rightarrow> byte list \<Rightarrow> nat" where
  "last_block n fl = length fl div n + 1"

lemma length_block: "length (block n fl k) = min n (length fl - (k - 1) * n)"
  by (simp add: block_def)

lemma last_block_bound: "last_block n fl \<le> length fl + 1"
  by (simp add: last_block_def)

lemma block_full: "0 < k \<Longrightarrow> k < last_block n fl \<Longrightarrow> length (block n fl k) = n"
proof -
  assume "0 < k" "k < last_block n fl"
  then have "k \<le> length fl div n" by (simp add: last_block_def)
  then have "k * n \<le> length fl" by (metis div_times_less_eq_dividend le_trans mult_le_mono1)
  then have "(k - 1) * n + n \<le> length fl" using \<open>0 < k\<close> by (cases k) auto
  then show ?thesis by (simp add: length_block)
qed

lemma block_last_short: "0 < n \<Longrightarrow> length (block n fl (last_block n fl)) < n"
  by (simp add: length_block last_block_def minus_div_mult_eq_mod)

lemma block_in_file: "0 < k \<Longrightarrow> k \<le> last_block n fl \<Longrightarrow> (k - 1) * n \<le> length fl"
  unfolding last_block_def
  by (metis Suc_diff_1 Suc_eq_plus1 Suc_le_mono div_times_less_eq_dividend le_trans mult_le_mono1)

text \<open>Where the last block starts, if it is not empty.\<close>

lemma last_block_pos:
  assumes "0 < n" "\<not> n dvd length fl"
  shows "(last_block n fl - 1) * n < length fl" "length fl < (last_block n fl - 1) * n + n"
proof -
  have "(last_block n fl - 1) * n + length fl mod n = length fl" by (simp add: last_block_def)
  moreover have "0 < length fl mod n" using assms(2) by (simp add: dvd_eq_mod_eq_0)
  moreover have "length fl mod n < n" using assms(1) by simp
  ultimately show "(last_block n fl - 1) * n < length fl" "length fl < (last_block n fl - 1) * n + n" by linarith+
qed

lemma concat_blocks_take:
  "k < last_block n fl \<Longrightarrow> concat (map (block n fl) [1..<Suc k]) = take (k * n) fl"
proof (induction k)
  case (Suc k)
  have full: "length (block n fl (Suc k)) = n" using block_full [of "Suc k"] Suc.prems by simp
  have "[1..<Suc (Suc k)] = [1..<Suc k] @ [Suc k]" by simp
  then have "concat (map (block n fl) [1..<Suc (Suc k)]) = take (k * n) fl @ block n fl (Suc k)"
    using Suc by (simp del: upt_Suc)
  also have "\<dots> = take (k * n) fl @ take n (drop (k * n) fl)" by (simp add: block_def)
  also have "\<dots> = take (k * n + n) fl" by (rule take_add [symmetric])
  finally show ?case by (simp add: add.commute)
qed simp

lemma concat_blocks: "0 < n \<Longrightarrow> concat (map (block n fl) [1..<Suc (last_block n fl)]) = fl"
proof -
  assume n: "0 < n"
  let ?m = "length fl div n"
  have "concat (map (block n fl) [1..<Suc (Suc ?m)]) = take (?m * n) fl @ block n fl (Suc ?m)"
    using concat_blocks_take [of ?m n fl] upt_Suc [of 1 "Suc ?m"]
    by (simp add: last_block_def del: upt_Suc)
  also have "block n fl (Suc ?m) = drop (?m * n) fl"
    using block_last_short [OF n, of fl] n by (simp add: block_def last_block_def minus_div_mult_eq_mod)
  finally show ?thesis by (simp add: last_block_def del: upt_Suc)
qed

section \<open>The contract of \<open>read\<close>\<close>

text \<open>
  The arguments of \<open>rd\<close> are the manager, the size of the buffer and the position; the result has
  the returned size, the bytes stored at the begin of the buffer, a reported error and the manager.
\<close>

locale block_source =
  fixes rd :: "'d \<Rightarrow> nat \<Rightarrow> nat \<Rightarrow> (int \<times> byte list \<times> dm_error \<times> 'd) res"
    and src :: "'d \<Rightarrow> byte list"
    and ready :: "'d \<Rightarrow> bool"
  assumes rd_full: "\<lbrakk> ready d; p + n \<le> length (src d); length (src d) < 2 ^ 63 \<rbrakk> \<Longrightarrow>
      \<exists>d'. rd d n p = Inr (int n, take n (drop p (src d)), None, d') \<and> ready d' \<and> src d' = src d"
    and rd_last: "\<lbrakk> ready d; p \<le> length (src d); length (src d) < p + n; length (src d) < 2 ^ 63 \<rbrakk> \<Longrightarrow>
      \<exists>d'. rd d n p = Inr (int (length (src d) - p), drop p (src d), None, d') \<and> src d' = src d \<and>
        (p = length (src d) \<longrightarrow> ready d')"
begin

text \<open>
  Block \<open>k\<close> is delivered; the manager stays usable unless the block was the last one and not
  empty.
\<close>

lemma rd_block:
  assumes "ready d" "0 < k" "k \<le> last_block n (src d)" "0 < n" "length (src d) < 2 ^ 63"
  shows "\<exists>d'. rd d n ((k - 1) * n) = Inr (int (length (block n (src d) k)), block n (src d) k, None, d') \<and>
    src d' = src d \<and> (k < last_block n (src d) \<or> n dvd length (src d) \<longrightarrow> ready d')"
proof (cases "k = last_block n (src d)")
  case True
  have p: "(k - 1) * n \<le> length (src d)" using block_in_file assms(2,3) by blast
  have lt: "length (src d) < (k - 1) * n + n"
    using block_last_short [OF assms(4), of "src d"] p True by (simp add: length_block)
  have "block n (src d) k = drop ((k - 1) * n) (src d)" using lt by (simp add: block_def)
  moreover have "n dvd length (src d) \<Longrightarrow> (k - 1) * n = length (src d)" using True by (simp add: last_block_def)
  ultimately show ?thesis using rd_last [OF assms(1) p lt assms(5)] True by auto
next
  case False
  then have "k < last_block n (src d)" using assms(3) by simp
  then have len: "length (block n (src d) k) = n" using block_full assms(2) by blast
  then have "(k - 1) * n + n \<le> length (src d)" using assms(4) by (simp add: length_block)
  then show ?thesis using rd_full [OF assms(1) _ assms(5)] len by (auto simp: block_def)
qed

end

section \<open>The contract of \<open>write\<close>\<close>

text \<open>
  The arguments of \<open>wr\<close> are the manager, the bytes, the position and whether the device takes the
  data; \<open>stored\<close> is the file as written so far.
\<close>

locale block_sink =
  fixes wr :: "'d \<Rightarrow> byte list \<Rightarrow> nat \<Rightarrow> bool \<Rightarrow> (int \<times> dm_error \<times> 'd) res"
    and stored :: "'d \<Rightarrow> byte list"
    and writable :: "'d \<Rightarrow> bool"
  assumes wr_at: "\<lbrakk> writable d; bs \<noteq> []; p < 2 ^ 63 \<rbrakk> \<Longrightarrow>
      \<exists>d'. wr d bs p True = Inr (int (length bs), None, d') \<and> writable d' \<and> stored d' = overlay (stored d) p bs"
    and wr_empty: "writable d \<Longrightarrow> wr d [] p True = Inr (0, None, d)"
begin

text \<open>Writing the next block appends it; writing a block a second time changes nothing.\<close>

lemma wr_next:
  assumes "writable d" "length (stored d) = p" "p < 2 ^ 63"
  shows "\<exists>d'. wr d bs p True = Inr (int (length bs), None, d') \<and> writable d' \<and> stored d' = stored d @ bs"
proof (cases "bs = []")
  case True
  then show ?thesis using wr_empty [OF assms(1)] assms(1) by simp
next
  case False
  then show ?thesis using wr_at [OF assms(1) False assms(3)] assms(2) by (simp add: overlay_at_end)
qed

lemma wr_again:
  assumes "writable d" "stored d = fl @ bs" "length fl < 2 ^ 63"
  shows "\<exists>d'. wr d bs (length fl) True = Inr (int (length bs), None, d') \<and> writable d' \<and> stored d' = stored d"
proof (cases "bs = []")
  case True
  then show ?thesis using wr_empty [OF assms(1)] assms(1) by simp
next
  case False
  have "overlay (fl @ bs) (length fl) bs = fl @ bs" by (simp add: overlay_def)
  then show ?thesis using wr_at [OF assms(1) False assms(3)] assms(2) by simp
qed

end

end
