(* ===== verification/Addr.thy ===== *)
theory Addr
  imports Regex
begin

text \<open>
  The class \<open>Addr\<close> (tftpAddr.h, tftpAddr.cpp): a 30-byte buffer that holds a
  \<open>sockaddr_in\<close> or \<open>sockaddr_in6\<close> with its data size. Bytes 0 and 1 are the family (host
  order, little endian), bytes 2 and 3 the port (big endian); an IPv4 address is at offset 4, an
  IPv6 address at offset 8. \<open>inet_pton\<close> and \<open>inet_ntop\<close> belong to the C library of the
  system and are arguments.
\<close>

record addr =
  a_bytes :: "byte list"
  a_data_size :: nat

abbreviation (input) max_sockaddr_size :: nat where "max_sockaddr_size \<equiv> 30"

type_synonym pton = "nat \<Rightarrow> string \<Rightarrow> byte list option"
type_synonym ntop = "nat \<Rightarrow> byte list \<Rightarrow> string"

definition addr_clear :: "addr \<Rightarrow> addr" where
  "addr_clear a = a\<lparr>a_bytes := replicate max_sockaddr_size NUL, a_data_size := 0\<rparr>"

definition addr_new :: addr where
  "addr_new = addr_clear \<lparr>a_bytes = [], a_data_size = 0\<rparr>"

definition family :: "addr \<Rightarrow> nat" where
  "family a = le_val (take 2 (a_bytes a))"

definition port :: "addr \<Rightarrow> u16" where
  "port a = of_nat (be_val (take 2 (drop 2 (a_bytes a))))"

text \<open>\<open>assign\<close>: a null pointer is ignored; more than 30 bytes are cut off.\<close>

definition assign :: "addr \<Rightarrow> byte list option \<Rightarrow> nat \<Rightarrow> addr res" where
  "assign a data_ptr new_size =
     (case data_ptr of
        None \<Rightarrow> Inr a
      | Some src \<Rightarrow>
          (let n = min max_sockaddr_size new_size in
           if length src < n then Inl Undefined
           else Inr (a\<lparr>a_bytes := put_at (a_bytes a) 0 (take n src), a_data_size := n\<rparr>)))"

text \<open>The non-const \<open>as_in\<close> and \<open>as_in6\<close> set the data size; what is then written through the
  reference is written by the caller.\<close>

definition as_in :: "addr \<Rightarrow> addr" where
  "as_in a = a\<lparr>a_data_size := sizeof_sockaddr_in\<rparr>"

definition as_in6 :: "addr \<Rightarrow> addr" where
  "as_in6 a = a\<lparr>a_data_size := sizeof_sockaddr_in6\<rparr>"

definition sin_addr :: "addr \<Rightarrow> byte list" where
  "sin_addr a = take 4 (drop 4 (a_bytes a))"

definition sin6_addr :: "addr \<Rightarrow> byte list" where
  "sin6_addr a = take 16 (drop 8 (a_bytes a))"

definition addr_str :: "ntop \<Rightarrow> addr \<Rightarrow> string" where
  "addr_str inet_ntop a =
     (if family a = AF_INET then
        inet_ntop AF_INET (sin_addr a) @ '':'' @ nat_str (unat (port a))
      else if family a = AF_INET6 then
        ''['' @ inet_ntop AF_INET6 (sin6_addr a) @ '']:'' @ nat_str (unat (port a))
      else ''???'')"

definition set_family :: "addr \<Rightarrow> nat \<Rightarrow> addr" where
  "set_family a new_family =
     a\<lparr>a_bytes := put_at (a_bytes a) 0 (le_bytes 2 new_family),
       a_data_size := (if new_family = AF_INET then sizeof_sockaddr_in
                       else if new_family = AF_INET6 then sizeof_sockaddr_in6 else 0)\<rparr>"

definition set_port_u16 :: "addr \<Rightarrow> u16 \<Rightarrow> addr" where
  "set_port_u16 a new_port = a\<lparr>a_bytes := put_at (a_bytes a) 2 (be_bytes 2 (unat new_port))\<rparr>"

text \<open>\<open>set_addr_str\<close>: \<open>as_in()\<close> is evaluated, and sets the data size, also when the text is
  not an address.\<close>

definition set_addr_str :: "pton \<Rightarrow> addr \<Rightarrow> string \<Rightarrow> bool \<times> addr" where
  "set_addr_str inet_pton a adr =
     (if family a = AF_INET then
        (case inet_pton AF_INET adr of
           None \<Rightarrow> (False, as_in a)
         | Some bs \<Rightarrow> (True, (as_in a)\<lparr>a_bytes := put_at (a_bytes a) 4 bs\<rparr>))
      else if family a = AF_INET6 then
        (case inet_pton AF_INET6 adr of
           None \<Rightarrow> (False, as_in6 a)
         | Some bs \<Rightarrow> (True, (as_in6 a)\<lparr>a_bytes := put_at (a_bytes a) 8 bs\<rparr>))
      else (False, a))"

definition set_port_str :: "addr \<Rightarrow> string \<Rightarrow> bool \<times> addr" where
  "set_port_str a adr =
     (case stoul adr of
        Inl _ \<Rightarrow> (False, a)
      | Inr new_port \<Rightarrow> (True, set_port_u16 a (of_nat (new_port mod 2 ^ 16))))"

definition set_addr_in :: "addr \<Rightarrow> byte list \<Rightarrow> addr" where
  "set_addr_in a adr =
     (let a1 = as_in (set_family a AF_INET) in a1\<lparr>a_bytes := put_at (a_bytes a1) 4 adr\<rparr>)"

definition set_addr_in6 :: "addr \<Rightarrow> byte list \<Rightarrow> addr" where
  "set_addr_in6 a adr =
     (let a1 = as_in6 (set_family a AF_INET6) in a1\<lparr>a_bytes := put_at (a_bytes a1) 8 adr\<rparr>)"

text \<open>
  The templates \<open>set_port\<close> and \<open>set_addr\<close>, over the kinds of argument they tell apart: integers of any
  width, the address structures (the port of a \<open>sockaddr_in\<close> in host order), what a \<open>std::string\<close> can be
  made of, and everything else, which they refuse.
\<close>

datatype port_arg = Port_int int | Port_text string | Port_other

fun set_port :: "addr \<Rightarrow> port_arg \<Rightarrow> bool \<times> addr" where
  "set_port a (Port_int n) = (True, set_port_u16 a (word_of_int n))"
| "set_port a (Port_text t) = set_port_str a t"
| "set_port a Port_other = (False, a)"

datatype addr_arg =
    Addr_in "byte list"
  | Addr_sockaddr_in nat u16 "byte list"
  | Addr_in6 "byte list"
  | Addr_text string
  | Addr_other

fun set_addr :: "pton \<Rightarrow> addr \<Rightarrow> addr_arg \<Rightarrow> bool \<times> addr" where
  "set_addr inet_pton a (Addr_in adr) = (True, set_addr_in a adr)"
| "set_addr inet_pton a (Addr_sockaddr_in fam prt adr) =
     (True, set_addr_in (snd (set_port (set_family a fam) (Port_int (uint prt)))) adr)"
| "set_addr inet_pton a (Addr_in6 adr) = (True, set_addr_in6 a adr)"
| "set_addr inet_pton a (Addr_text t) = set_addr_str inet_pton a t"
| "set_addr inet_pton a Addr_other = (False, a)"

section \<open>Addresses as text\<close>

definition rx_quad :: rx where
  "rx_quad =
     RSeq [RRep rx_digit 1 3, rx_char (CHR ''.''), RRep rx_digit 1 3, rx_char (CHR ''.''),
           RRep rx_digit 1 3, rx_char (CHR ''.''), RRep rx_digit 1 3]"

definition re4 :: rx where
  "re4 =
     RAlt (RSeq [RBol, RGroup 1 rx_quad, REol])
       (RAlt (RSeq [RGroup 2 (RSeq [RBol, RGroup 3 rx_quad, rx_char (CHR '':''),
                                    RGroup 4 (RRep rx_digit 0 5)]), REol])
             (RSeq [RBol, rx_char (CHR '':''), RGroup 5 (RRep rx_digit 1 5), REol]))"

definition hex_or_colon :: "byte \<Rightarrow> bool" where
  "hex_or_colon c \<longleftrightarrow> is_hex c \<or> c = CHR '':''"

definition re6 :: rx where
  "re6 =
     RAlt (RSeq [RBol, rx_opt (rx_char (CHR ''['')), RGroup 1 (RStar (RCls hex_or_colon)),
                 rx_opt (rx_char (CHR '']'')), rx_char (CHR '':''),
                 RGroup 2 (RRep rx_digit 1 5), REol])
          (RSeq [RBol, rx_opt (rx_char (CHR ''['')), RGroup 3 (RStar (RCls hex_or_colon)),
                 rx_opt (rx_char (CHR '']'')), REol])"

definition addr_set_string :: "pton \<Rightarrow> addr \<Rightarrow> string \<Rightarrow> (bool \<times> bool) \<times> addr" where
  "addr_set_string inet_pton a new_value =
     (case regex_search re4 new_value of
        Some (_, _, sm4) \<Rightarrow>
          (let a1 = set_family a AF_INET;
               (is_set_port, a2) =
                 (if cap_str sm4 5 \<noteq> [] then set_port a1 (Port_text (cap_str sm4 5))
                  else if cap_str sm4 4 \<noteq> [] then set_port a1 (Port_text (cap_str sm4 4))
                  else (False, a1));
               (is_set_addr, a3) =
                 (if cap_str sm4 3 \<noteq> [] then set_addr inet_pton a2 (Addr_text (cap_str sm4 3))
                  else if cap_str sm4 1 \<noteq> [] then set_addr inet_pton a2 (Addr_text (cap_str sm4 1))
                  else (False, a2))
           in ((is_set_addr, is_set_port), a3))
      | None \<Rightarrow>
          (case regex_search re6 new_value of
             Some (_, _, sm6) \<Rightarrow>
               (let a1 = set_family a AF_INET6;
                    (is_set_port, a2) =
                      (if cap_str sm6 2 \<noteq> [] then set_port a1 (Port_text (cap_str sm6 2))
                       else (False, a1));
                    (is_set_addr, a3) =
                      (if cap_str sm6 3 \<noteq> [] then set_addr inet_pton a2 (Addr_text (cap_str sm6 3))
                       else if cap_str sm6 1 \<noteq> [] then set_addr inet_pton a2 (Addr_text (cap_str sm6 1))
                       else (False, a2))
                in ((is_set_addr, is_set_port), a3))
           | None \<Rightarrow> ((False, False), a)))"

section \<open>Invariant and field laws\<close>

text \<open>The array never changes its length and the data size stays inside it.\<close>

definition addr_ok :: "addr \<Rightarrow> bool" where
  "addr_ok a \<longleftrightarrow> length (a_bytes a) = max_sockaddr_size \<and> a_data_size a \<le> max_sockaddr_size"

text \<open>
  What \<open>inet_pton\<close> is documented to do: it stores 4 bytes for \<open>AF_INET\<close> and 16 for
  \<open>AF_INET6\<close>.
\<close>

definition pton_ok :: "pton \<Rightarrow> bool" where
  "pton_ok inet_pton \<longleftrightarrow>
     (\<forall>s bs. inet_pton AF_INET s = Some bs \<longrightarrow> length bs = 4) \<and>
     (\<forall>s bs. inet_pton AF_INET6 s = Some bs \<longrightarrow> length bs = 16)"

lemma addr_ok_new: "addr_ok addr_new"
  by (simp add: addr_ok_def addr_new_def addr_clear_def)

lemma addr_ok_set_family: "addr_ok a \<Longrightarrow> addr_ok (set_family a f)"
  by (auto simp: addr_ok_def set_family_def)

lemma addr_ok_set_port_u16: "addr_ok a \<Longrightarrow> addr_ok (set_port_u16 a p)"
  by (auto simp: addr_ok_def set_port_u16_def)

lemma addr_ok_set_port_str: "addr_ok a \<Longrightarrow> addr_ok (snd (set_port_str a s))"
  by (auto simp: set_port_str_def addr_ok_set_port_u16 split: sum.splits)

lemma addr_ok_set_addr_str: "pton_ok p \<Longrightarrow> addr_ok a \<Longrightarrow> addr_ok (snd (set_addr_str p a s))"
  by (auto simp: set_addr_str_def addr_ok_def as_in_def as_in6_def pton_ok_def split: option.splits)

lemma addr_ok_set_addr_in: "addr_ok a \<Longrightarrow> length adr = 4 \<Longrightarrow> addr_ok (set_addr_in a adr)"
  by (auto simp: set_addr_in_def addr_ok_def as_in_def set_family_def Let_def)

lemma addr_ok_set_addr_in6: "addr_ok a \<Longrightarrow> length adr = 16 \<Longrightarrow> addr_ok (set_addr_in6 a adr)"
  by (auto simp: set_addr_in6_def addr_ok_def as_in6_def set_family_def Let_def)

lemma addr_ok_assign: "addr_ok a \<Longrightarrow> assign a d n = Inr a' \<Longrightarrow> addr_ok a'"
  by (auto simp: assign_def addr_ok_def Let_def split: option.splits if_splits)

lemma addr_ok_set_string:
  assumes "pton_ok p" "addr_ok a"
  shows "addr_ok (snd (addr_set_string p a s))"
  using assms
  by (simp add: addr_set_string_def Let_def case_prod_beta addr_ok_set_family addr_ok_set_addr_str
      addr_ok_set_port_str split: option.split)

lemma set_port_u16_laws:
  assumes "addr_ok a"
  shows "port (set_port_u16 a p) = p" "family (set_port_u16 a p) = family a"
    "sin_addr (set_port_u16 a p) = sin_addr a" "sin6_addr (set_port_u16 a p) = sin6_addr a"
    "a_data_size (set_port_u16 a p) = a_data_size a"
proof -
  have len: "length (a_bytes a) = 30" using assms by (simp add: addr_ok_def)
  have "take 2 (drop 2 (put_at (a_bytes a) 2 (be_bytes 2 (unat p)))) = be_bytes 2 (unat p)"
    using take_drop_put_at [of 2 "a_bytes a" "be_bytes 2 (unat p)"] len by simp
  moreover have "unat p mod 65536 = unat p"
    using unsigned_less [of p] by (intro mod_less) simp
  ultimately show "port (set_port_u16 a p) = p"
    by (simp add: port_def set_port_u16_def be_val_be_bytes)
  show "family (set_port_u16 a p) = family a" "sin_addr (set_port_u16 a p) = sin_addr a"
    "sin6_addr (set_port_u16 a p) = sin6_addr a"
    using len by (simp_all add: family_def sin_addr_def sin6_addr_def set_port_u16_def
        take_put_at_before drop_put_at_after)
qed (simp add: set_port_u16_def)

lemma set_family_laws:
  assumes "addr_ok a" "f < 2 ^ 16"
  shows "family (set_family a f) = f" "port (set_family a f) = port a"
    "sin_addr (set_family a f) = sin_addr a" "sin6_addr (set_family a f) = sin6_addr a"
proof -
  have len: "length (a_bytes a) = 30" using assms by (simp add: addr_ok_def)
  have "take 2 (put_at (a_bytes a) 0 (le_bytes 2 f)) = le_bytes 2 f"
    using take_drop_put_at [of 0 "a_bytes a" "le_bytes 2 f"] by simp
  then show "family (set_family a f) = f"
    using assms(2) by (simp add: family_def set_family_def le_val_le_bytes)
  show "port (set_family a f) = port a" "sin_addr (set_family a f) = sin_addr a"
    "sin6_addr (set_family a f) = sin6_addr a"
    using len by (simp_all add: port_def sin_addr_def sin6_addr_def set_family_def drop_put_at_after)
qed

lemma set_addr_str_v4:
  assumes "addr_ok a" "family a = AF_INET" "pton AF_INET s = Some bs" "length bs = 4"
  shows "fst (set_addr_str pton a s)" "sin_addr (snd (set_addr_str pton a s)) = bs"
    "port (snd (set_addr_str pton a s)) = port a" "family (snd (set_addr_str pton a s)) = AF_INET"
    "a_data_size (snd (set_addr_str pton a s)) = sizeof_sockaddr_in"
proof -
  have len: "length (a_bytes a) = 30" using assms by (simp add: addr_ok_def)
  have t: "take 4 (drop 4 (put_at (a_bytes a) 4 bs)) = bs"
    using take_drop_put_at [of 4 "a_bytes a" bs] len assms(4) by simp
  show "fst (set_addr_str pton a s)" "sin_addr (snd (set_addr_str pton a s)) = bs"
    "port (snd (set_addr_str pton a s)) = port a" "family (snd (set_addr_str pton a s)) = AF_INET"
    "a_data_size (snd (set_addr_str pton a s)) = sizeof_sockaddr_in"
    using assms(2-4) len t
    by (simp_all add: set_addr_str_def sin_addr_def port_def family_def as_in_def
        take_put_at_before take_drop [of _ 2])
qed

section \<open>Dotted quads\<close>

definition digits_1_3 :: "string \<Rightarrow> bool" where
  "digits_1_3 d \<longleftrightarrow> 1 \<le> length d \<and> length d \<le> 3 \<and> (\<forall>c \<in> set d. is_digit c)"

definition quad_text :: "string \<Rightarrow> bool" where
  "quad_text q \<longleftrightarrow>
     (\<exists>a b c d. q = a @ CHR ''.'' # b @ CHR ''.'' # c @ CHR ''.'' # d \<and>
        digits_1_3 a \<and> digits_1_3 b \<and> digits_1_3 c \<and> digits_1_3 d)"

lemma not_digit_punct [simp]: "\<not> is_digit (CHR ''.'')" "\<not> is_digit (CHR '':'')"
  by (simp_all add: is_digit_def)

lemma digits_then_dot:
  assumes "s = pre @ d @ CHR ''.'' # post" "i = length pre" "digits_1_3 d"
    "rx_match_seq s rs (i + length d + 1, c) = y # ys"
  shows "\<exists>zs. rx_match_seq s (RRep rx_digit 1 3 # rx_char (CHR ''.'') # rs) (i, c) = y # zs"
proof -
  obtain r where r: "rx_match s (RRep rx_digit 1 3) (i, c) = (i + length d, c) # r"
    using rx_rep_at [of s pre d "CHR ''.'' # post" i is_digit 1 3 c] assms(1-3)
    by (auto simp: digits_1_3_def rx_digit_def)
  have "rx_match s (rx_char (CHR ''.'')) (i + length d, c) = [(i + length d + 1, c)]"
    using char_first [of s "pre @ d" "CHR ''.''" post] assms(1,2) by simp
  then have "rx_match_seq s (rx_char (CHR ''.'') # rs) (i + length d, c) = y # ys"
    using assms(4) by simp
  with r show ?thesis by (rule seq_first)
qed

lemma quad_first:
  assumes "s = pre @ q @ post" "i = length pre" "quad_text q" "post = [] \<or> \<not> is_digit (hd post)"
  shows "\<exists>rest. rx_match s rx_quad (i, c) = (i + length q, c) # rest"
proof -
  from assms(3) obtain d1 d2 d3 d4 where
    q: "q = d1 @ CHR ''.'' # d2 @ CHR ''.'' # d3 @ CHR ''.'' # d4" and
    d: "digits_1_3 d1" "digits_1_3 d2" "digits_1_3 d3" "digits_1_3 d4"
    by (auto simp: quad_text_def)
  let ?p2 = "i + length d1 + 1" let ?p3 = "?p2 + length d2 + 1" let ?p4 = "?p3 + length d3 + 1"
  obtain r4 where "rx_match s (RRep rx_digit 1 3) (?p4, c) = (?p4 + length d4, c) # r4"
    using rx_rep_at [of s "pre @ d1 @ CHR ''.'' # d2 @ CHR ''.'' # d3 @ [CHR ''.'']" d4 post ?p4 is_digit 1 3 c]
      assms(1,2,4) q d(4) by (auto simp: digits_1_3_def rx_digit_def)
  then have e4: "\<exists>z. rx_match_seq s [RRep rx_digit 1 3] (?p4, c) = (?p4 + length d4, c) # z"
    by simp
  then obtain z4 where z4: "rx_match_seq s [RRep rx_digit 1 3] (?p4, c) = (?p4 + length d4, c) # z4" ..
  obtain z3 where z3: "rx_match_seq s [RRep rx_digit 1 3, rx_char (CHR ''.''), RRep rx_digit 1 3] (?p3, c)
      = (?p4 + length d4, c) # z3"
    using digits_then_dot [of s "pre @ d1 @ CHR ''.'' # d2 @ [CHR ''.'']" d3 "d4 @ post", OF _ _ d(3) z4]
      assms(1,2) q by auto
  obtain z2 where z2: "rx_match_seq s [RRep rx_digit 1 3, rx_char (CHR ''.''), RRep rx_digit 1 3,
      rx_char (CHR ''.''), RRep rx_digit 1 3] (?p2, c) = (?p4 + length d4, c) # z2"
    using digits_then_dot [of s "pre @ d1 @ [CHR ''.'']" d2 "d3 @ CHR ''.'' # d4 @ post", OF _ _ d(2) z3]
      assms(1,2) q by auto
  have "\<exists>z. rx_match_seq s [RRep rx_digit 1 3, rx_char (CHR ''.''), RRep rx_digit 1 3, rx_char (CHR ''.''),
      RRep rx_digit 1 3, rx_char (CHR ''.''), RRep rx_digit 1 3] (i, c) = (?p4 + length d4, c) # z"
    using digits_then_dot [of s pre d1 "d2 @ CHR ''.'' # d3 @ CHR ''.'' # d4 @ post", OF _ _ d(1) z2]
      assms(1,2) q by auto
  moreover have "?p4 + length d4 = i + length q" by (simp add: q)
  ultimately show ?thesis by (simp only: rx_quad_def rx_match.simps(2))
qed

definition digit_or_dot :: "byte \<Rightarrow> bool" where
  "digit_or_dot c \<longleftrightarrow> is_digit c \<or> c = CHR ''.''"

lemma quad_not_to_end:
  assumes "CHR '':'' \<in> set (drop i s)"
  shows "rx_match_seq s [RGroup 1 rx_quad, REol] (i, c) = []"
proof -
  have w: "rx_within digit_or_dot rx_quad"
    by (simp add: rx_quad_def rx_digit_def rx_char_def digit_or_dot_def)
  have "fst st' \<noteq> length s" if "st' \<in> set (rx_match s rx_quad (i, c))" for st'
  proof
    assume e: "fst st' = length s"
    with rx_match_spans(1) [OF w that] have sp: "spans digit_or_dot s i (length s)" by simp
    from assms obtain k where k: "k < length (drop i s)" "drop i s ! k = CHR '':''"
      by (auto simp: in_set_conv_nth)
    then have "s ! (i + k) = CHR '':''" "i + k < length s" by auto
    with sp have "digit_or_dot (CHR '':'')" unfolding spans_def by (metis le_add1)
    then show False by (simp add: digit_or_dot_def)
  qed
  then show ?thesis by (auto simp: case_prod_beta)
qed

lemma re4_quad:
  assumes "quad_text q"
  shows "regex_search re4 q = Some (0, length q, [1 \<mapsto> q])"
proof -
  obtain r where "rx_match q rx_quad (0, Map.empty) = (length q, Map.empty) # r"
    using quad_first [of q "[]" q "[]" 0 Map.empty] assms by auto
  then have "\<exists>r. rx_match q re4 (0, Map.empty) = (length q, [1 \<mapsto> q]) # r"
    by (simp add: re4_def)
  then show ?thesis by (auto intro: regex_search_at_0)
qed

lemma re4_quad_port:
  assumes "quad_text q" "length pt \<le> 5" "\<forall>c \<in> set pt. is_digit c"
  shows "\<exists>j c. regex_search re4 (q @ CHR '':'' # pt) = Some (0, j, c) \<and>
    c 3 = Some q \<and> c 4 = Some pt \<and> c 5 = None"
proof -
  let ?s = "q @ CHR '':'' # pt"
  have none: "rx_match ?s (RSeq [RBol, RGroup 1 rx_quad, REol]) (0, Map.empty) = []"
    using quad_not_to_end [of 0 ?s Map.empty] by simp
  obtain r1 where r1: "rx_match ?s rx_quad (0, Map.empty) = (length q, Map.empty) # r1"
    using quad_first [of ?s "[]" q "CHR '':'' # pt" 0 Map.empty] assms by auto
  have g3: "\<exists>xs. rx_match ?s (RGroup 3 rx_quad) (0, Map.empty) = (length q, [3 \<mapsto> q]) # xs"
    using r1 by simp
  then obtain x3 where x3: "rx_match ?s (RGroup 3 rx_quad) (0, Map.empty) = (length q, [3 \<mapsto> q]) # x3" ..
  have colon: "rx_match ?s (rx_char (CHR '':'')) (length q, [3 \<mapsto> q]) = [(Suc (length q), [3 \<mapsto> q])]"
    by (rule char_first) auto
  obtain r4 where r4: "rx_match ?s (RRep rx_digit 0 5) (Suc (length q), [3 \<mapsto> q]) =
      (length ?s, [3 \<mapsto> q]) # r4"
    using rx_rep_at [of ?s "q @ [CHR '':'']" pt "[]" "Suc (length q)" is_digit 0 5 "[3 \<mapsto> q]"] assms
    by (auto simp: rx_digit_def)
  have "\<exists>ys. rx_match ?s (RGroup 4 (RRep rx_digit 0 5)) (Suc (length q), [3 \<mapsto> q]) =
      (length ?s, [3 \<mapsto> q, 4 \<mapsto> pt]) # ys"
    using r4 by simp
  then obtain x4 where x4: "rx_match ?s (RGroup 4 (RRep rx_digit 0 5)) (Suc (length q), [3 \<mapsto> q]) =
      (length ?s, [3 \<mapsto> q, 4 \<mapsto> pt]) # x4" ..
  let ?c = "[3 \<mapsto> q, 4 \<mapsto> pt, 2 \<mapsto> ?s]"
  have "\<exists>r. rx_match ?s re4 (0, Map.empty) = (length ?s, ?c) # r"
    unfolding re4_def rx_match.simps(3) none using x3 x4 colon by simp
  then obtain r where "rx_match ?s re4 (0, Map.empty) = (length ?s, ?c) # r" ..
  then have "regex_search re4 ?s = Some (0, length ?s, ?c)" by (rule regex_search_at_0)
  then show ?thesis by auto
qed

lemma set_string_quad_port:
  assumes "addr_ok a" "quad_text q" "is_digit_str pt" "length pt \<le> 5"
    "pton AF_INET q = Some bs" "length bs = 4"
  shows "fst (addr_set_string pton a (q @ CHR '':'' # pt)) = (True, True)"
    "family (snd (addr_set_string pton a (q @ CHR '':'' # pt))) = AF_INET"
    "sin_addr (snd (addr_set_string pton a (q @ CHR '':'' # pt))) = bs"
    "port (snd (addr_set_string pton a (q @ CHR '':'' # pt))) = of_nat (digits_val 10 pt mod 2 ^ 16)"
    "a_data_size (snd (addr_set_string pton a (q @ CHR '':'' # pt))) = sizeof_sockaddr_in"
proof -
  from assms(3) have dg: "\<forall>c \<in> set pt. is_digit c" and ne: "pt \<noteq> []" by (auto simp: is_digit_str_iff)
  obtain j c where rs: "regex_search re4 (q @ CHR '':'' # pt) = Some (0, j, c)"
    and c: "c 3 = Some q" "c 4 = Some pt" "c 5 = None"
    using re4_quad_port [OF assms(2,4) dg] by blast
  have qne: "q \<noteq> []" using assms(2) by (auto simp: quad_text_def)
  have "digits_val 10 pt < 10 ^ length pt" using dg by (rule digits_val_bound)
  also have "(10 :: nat) ^ length pt \<le> 10 ^ 5" using assms(4) by (intro power_increasing) auto
  finally have "stoul pt = Inr (digits_val 10 pt)" using assms(3) by (intro stoul_digits) auto
  then have sp: "set_port_str x pt = (True, set_port_u16 x (of_nat (digits_val 10 pt mod 2 ^ 16)))" for x
    by (simp add: set_port_str_def)
  define a2 where "a2 = set_port_u16 (set_family a AF_INET) (of_nat (digits_val 10 pt mod 2 ^ 16))"
  have ok: "addr_ok (set_family a AF_INET)" "addr_ok a2"
    using assms(1) by (simp_all add: a2_def addr_ok_set_family addr_ok_set_port_u16)
  have f: "family a2 = AF_INET" "port a2 = of_nat (digits_val 10 pt mod 2 ^ 16)"
    using ok(1) assms(1) by (simp_all add: a2_def set_port_u16_laws set_family_laws)
  have eq: "addr_set_string pton a (q @ CHR '':'' # pt) =
      ((fst (set_addr_str pton a2 q), True), snd (set_addr_str pton a2 q))"
    using c ne qne by (simp add: addr_set_string_def rs cap_str_def sp a2_def Let_def case_prod_beta)
  show "fst (addr_set_string pton a (q @ CHR '':'' # pt)) = (True, True)"
    "family (snd (addr_set_string pton a (q @ CHR '':'' # pt))) = AF_INET"
    "sin_addr (snd (addr_set_string pton a (q @ CHR '':'' # pt))) = bs"
    "port (snd (addr_set_string pton a (q @ CHR '':'' # pt))) = of_nat (digits_val 10 pt mod 2 ^ 16)"
    "a_data_size (snd (addr_set_string pton a (q @ CHR '':'' # pt))) = sizeof_sockaddr_in"
    using set_addr_str_v4 [of a2 pton q bs] ok(2) f assms(5,6) by (simp_all add: eq)
qed

text \<open>
  C30. An IPv4 address printed by \<open>str()\<close> and read by \<open>set_string\<close> comes back: both parts are
  recognised, and family, address bytes and port are those of the printed address. Of
  \<open>inet_ntop\<close> and \<open>inet_pton\<close> it is used that the text of this address is a dotted quad and that
  it converts back.
\<close>

theorem addr_text_roundtrip:
  assumes "addr_ok a" "family a = AF_INET" "addr_ok b"
    "quad_text (inet_ntop AF_INET (sin_addr a))"
    "inet_pton AF_INET (inet_ntop AF_INET (sin_addr a)) = Some (sin_addr a)"
  shows "fst (addr_set_string inet_pton b (addr_str inet_ntop a)) = (True, True) \<and>
    family (snd (addr_set_string inet_pton b (addr_str inet_ntop a))) = AF_INET \<and>
    sin_addr (snd (addr_set_string inet_pton b (addr_str inet_ntop a))) = sin_addr a \<and>
    port (snd (addr_set_string inet_pton b (addr_str inet_ntop a))) = port a"
proof -
  let ?pt = "nat_str (unat (port a))"
  have str: "addr_str inet_ntop a = inet_ntop AF_INET (sin_addr a) @ CHR '':'' # ?pt"
    using assms(2) by (simp add: addr_str_def)
  have bound: "unat (port a) < 2 ^ 16" using unsigned_less [of "port a"] by simp
  have len: "length ?pt \<le> 5" using bound length_nat_str [of "unat (port a)" 4] by simp
  have d: "is_digit_str ?pt" "digits_val 10 ?pt = unat (port a)"
    using nat_str_digits [of "unat (port a)"] by auto
  have l4: "length (sin_addr a) = 4" using assms(1) by (simp add: sin_addr_def addr_ok_def)
  have "digits_val 10 ?pt mod 2 ^ 16 = unat (port a)" using d(2) bound by simp
  then show ?thesis
    unfolding str using set_string_quad_port [where pton = inet_pton, OF assms(3,4) d(1) len assms(5) l4] by simp
qed

theorem addr_text_roundtrip_witness:
  "let ntop = (\<lambda>f bs. if bs = [CHR 0x0A, NUL, NUL, CHR 0x01] then ''10.0.0.1'' else ''0.0.0.0'');
       pton = (\<lambda>f s. if s = ''10.0.0.1'' then Some [CHR 0x0A, NUL, NUL, CHR 0x01] else None);
       a = set_port_u16 (set_addr_in addr_new [CHR 0x0A, NUL, NUL, CHR 0x01]) 69
   in addr_str ntop a = ''10.0.0.1:69'' \<and>
      fst (addr_set_string pton addr_new (addr_str ntop a)) = (True, True) \<and>
      port (snd (addr_set_string pton addr_new (addr_str ntop a))) = 69"
proof -
  let ?ntop = "\<lambda>(f :: nat) bs. if bs = [CHR 0x0A, NUL, NUL, CHR 0x01] then ''10.0.0.1'' else ''0.0.0.0''"
  let ?pton = "\<lambda>(f :: nat) s. if s = ''10.0.0.1'' then Some [CHR 0x0A, NUL, NUL, CHR 0x01] else None"
  let ?a = "set_port_u16 (set_addr_in addr_new [CHR 0x0A, NUL, NUL, CHR 0x01]) 69"
  have ok: "addr_ok ?a"
    by (intro addr_ok_set_port_u16 addr_ok_set_addr_in addr_ok_new) simp
  have f: "family ?a = 2" "sin_addr ?a = [CHR 0x0A, NUL, NUL, CHR 0x01]" "port ?a = 69"
    by code_simp+
  have s: "addr_str ?ntop ?a = ''10.0.0.1:69''" by code_simp
  have q: "quad_text ''10.0.0.1''"
    unfolding quad_text_def
    by (intro exI [of _ "''10''"] exI [of _ "''0''"] exI [of _ "''1''"] conjI)
      (simp_all add: digits_1_3_def is_digit_def)
  have "fst (addr_set_string ?pton addr_new (addr_str ?ntop ?a)) = (True, True) \<and>
      port (snd (addr_set_string ?pton addr_new (addr_str ?ntop ?a))) = 69"
    using addr_text_roundtrip [OF ok f(1) addr_ok_new, of ?ntop ?pton] f q by simp
  with s show ?thesis by (simp add: Let_def)
qed

text \<open>
  An IPv6 address without port whose last group is decimal is taken apart wrongly: in
  \<open>fe80::1\<close>, the example the header gives for "only IPv6 address", the first alternative of the
  expression takes \<open>fe80:\<close> for the address and 1 for the port. Where \<open>inet_pton\<close> rejects
  \<open>fe80:\<close>, \<open>set_string\<close> reports a port and no address.
\<close>

theorem bare_ipv6_misparsed:
  assumes "inet_pton AF_INET6 ''fe80:'' = None"
  shows "fst (addr_set_string inet_pton addr_new ''fe80::1'') = (False, True) \<and>
    port (snd (addr_set_string inet_pton addr_new ''fe80::1'')) = 1"
proof -
  have r4: "regex_search re4 ''fe80::1'' = None" by code_simp
  have r6: "map_option (\<lambda>(i, j, c). (cap_str c 1, cap_str c 2, cap_str c 3)) (regex_search re6 ''fe80::1'') =
      Some (''fe80:'', ''1'', [])" by code_simp
  then obtain i j c where rs: "regex_search re6 ''fe80::1'' = Some (i, j, c)"
    and c: "cap_str c 1 = ''fe80:''" "cap_str c 2 = ''1''" "cap_str c 3 = []"
    by auto
  have p: "set_port_str (set_family addr_new AF_INET6) ''1'' = (True, set_port_u16 (set_family addr_new AF_INET6) 1)"
    by code_simp
  have f: "family (set_port_u16 (set_family addr_new AF_INET6) 1) = AF_INET6"
    "port (as_in6 (set_port_u16 (set_family addr_new AF_INET6) 1)) = 1"
    by code_simp+
  show ?thesis
    using assms f c by (simp add: addr_set_string_def r4 rs p Let_def set_addr_str_def)
qed

theorem bare_ipv6_misparsed_witness:
  "fst (addr_set_string (\<lambda>f s. if s = ''fe80::1'' then Some (replicate 16 NUL) else None) addr_new ''fe80::1'')
     = (False, True)"
  using bare_ipv6_misparsed [of "\<lambda>f s. if s = ''fe80::1'' then Some (replicate 16 NUL) else None"] by simp

end
