(* ===== verification/Settings.thy ===== *)
theory Settings
  imports Addr
begin

text \<open>
  Class \<open>Settings\<close> (\<open>tftpSettings.h\<close>, \<open>tftpSettings.cpp\<close>): the settings record with its
  defaults and \<open>load_options\<close>, which folds the results of \<open>getopt_long\<close> into it. The results of
  \<open>getopt_long\<close> up to the first \<open>-1\<close> are the argument of the model: one record for each call,
  with the returned character, the index of a long option and \<open>optarg\<close>. The logging callback is
  modelled by a number that identifies it.
\<close>

unbundle bit_operations_syntax

record settings =
  is_daemon :: bool
  local_base :: addr
  root_dir :: string
  backup_dirs :: "string list"
  lib_dir :: string
  lib_name :: string
  db :: string
  user :: string
  pass :: string
  role :: string
  dialect :: u16
  use_syslog :: int
  log_cb :: "nat option"
  retransmit_count :: u16
  file_chown_user :: string
  file_chown_grp :: string
  file_chmod :: int

text \<open>The octal constant 0664 is 436.\<close>

definition settings_new :: settings where
  "settings_new =
     \<lparr>is_daemon = False, local_base = snd (set_port (set_family addr_new AF_INET) (Port_int 69)),
      root_dir = [], backup_dirs = [], lib_dir = [], lib_name = ''libfbclient.so'',
      db = [], user = [], pass = [], role = [], dialect = 3, use_syslog = 6, log_cb = None,
      retransmit_count = 3, file_chown_user = [], file_chown_grp = [], file_chmod = 436\<rparr>"

record getopt_result =
  go_opt :: char
  go_index :: nat
  go_arg :: "string option"

text \<open>The two tables given to \<open>getopt_long\<close>: name, whether an argument is required, value.\<close>

definition opt_string :: string where
  "opt_string = ''l:L:s:S:h?''"

definition long_opts :: "(string \<times> bool \<times> char) list" where
  "long_opts =
     [(''listen'', True, CHR ''l''), (''ip'', True, CHR ''l''), (''syslog'', True, CHR ''s''),
      (''help'', False, CHR ''h''), (''lib-dir'', True, NUL), (''lib-name'', True, NUL),
      (''root-dir'', True, NUL), (''search'', True, NUL), (''fb-db'', True, NUL),
      (''fb-user'', True, NUL), (''fb-pass'', True, NUL), (''fb-role'', True, NUL),
      (''fb-dialect'', True, NUL), (''daemon'', False, NUL), (''retransmit'', True, NUL),
      (''file-chuser'', True, NUL), (''file-chgrp'', True, NUL), (''file-chmod'', True, NUL)]"

text \<open>The inner \<open>switch(longIndex)\<close>.\<close>

definition load_long_option :: "settings \<Rightarrow> nat \<Rightarrow> string option \<Rightarrow> settings res" where
  "load_long_option s longIndex optarg =
     (if longIndex = 13 then Inr (s\<lparr>is_daemon := True\<rparr>)
      else case optarg of
        None \<Rightarrow> Inr s
      | Some a \<Rightarrow>
          if longIndex = 4 then Inr (s\<lparr>lib_dir := a\<rparr>)
          else if longIndex = 5 then Inr (s\<lparr>lib_name := a\<rparr>)
          else if longIndex = 6 then Inr (s\<lparr>root_dir := a\<rparr>)
          else if longIndex = 7 then Inr (s\<lparr>backup_dirs := backup_dirs s @ [a]\<rparr>)
          else if longIndex = 8 then Inr (s\<lparr>db := a\<rparr>)
          else if longIndex = 9 then Inr (s\<lparr>user := a\<rparr>)
          else if longIndex = 10 then Inr (s\<lparr>pass := a\<rparr>)
          else if longIndex = 11 then Inr (s\<lparr>role := a\<rparr>)
          else if longIndex = 12 then
            (case stoul a of Inl _ \<Rightarrow> Inr s | Inr v \<Rightarrow> Inr (s\<lparr>dialect := of_nat (v AND 0xFFFF)\<rparr>))
          else if longIndex = 14 then
            (case stoul a of Inl _ \<Rightarrow> Inr s | Inr v \<Rightarrow> Inr (s\<lparr>retransmit_count := of_nat (v AND 0xFFFF)\<rparr>))
          else if longIndex = 15 then Inr (s\<lparr>file_chown_user := a\<rparr>)
          else if longIndex = 16 then Inr (s\<lparr>file_chown_grp := a\<rparr>)
          else if longIndex = 17 then
            (case stoi 8 a of Inl e \<Rightarrow> Inl e | Inr v \<Rightarrow> Inr (s\<lparr>file_chmod := v\<rparr>))
          else Inr s)"

text \<open>The body of the \<open>while\<close> loop after the test for \<open>-1\<close>; the flag is \<open>ret\<close>.\<close>

definition load_option :: "pton \<Rightarrow> bool \<times> settings \<Rightarrow> getopt_result \<Rightarrow> (bool \<times> settings) res" where
  "load_option inet_pton rs g =
     (case rs of (ret, s) \<Rightarrow>
        if go_opt g = CHR ''l'' then
          Inr (ret, case go_arg g of
                      None \<Rightarrow> s
                    | Some a \<Rightarrow> s\<lparr>local_base := snd (addr_set_string inet_pton (local_base s) a)\<rparr>)
        else if go_opt g = CHR ''s'' \<or> go_opt g = CHR ''S'' then
          Inr (ret, case go_arg g of
                      None \<Rightarrow> s
                    | Some a \<Rightarrow> (case stoi 10 a of
                                  Inl _ \<Rightarrow> s
                                | Inr v \<Rightarrow> s\<lparr>use_syslog := v AND 7\<rparr>))
        else if go_opt g = CHR ''h'' \<or> go_opt g = CHR ''H'' \<or> go_opt g = CHR ''?'' then
          Inr (False, s)
        else if go_opt g = NUL then
          (case load_long_option s (go_index g) (go_arg g) of
             Inl e \<Rightarrow> Inl e
           | Inr s' \<Rightarrow> Inr (ret, s'))
        else Inr (ret, s))"

fun load_loop :: "pton \<Rightarrow> bool \<times> settings \<Rightarrow> getopt_result list \<Rightarrow> (bool \<times> settings) res" where
  "load_loop inet_pton rs [] = Inr rs"
| "load_loop inet_pton rs (g # gs) =
     (case load_option inet_pton rs g of
        Inl e \<Rightarrow> Inl e
      | Inr rs' \<Rightarrow> load_loop inet_pton rs' gs)"

definition load_options :: "pton \<Rightarrow> settings \<Rightarrow> int \<Rightarrow> getopt_result list \<Rightarrow> (bool \<times> settings) res" where
  "load_options inet_pton s argc gs =
     (let s1 = s\<lparr>backup_dirs := []\<rparr>
      in if argc > 1 then load_loop inet_pton (True, s1) gs else Inr (True, s1))"

section \<open>Help texts\<close>

abbreviation endl :: string where "endl \<equiv> [CHR 0x0A]"

definition out_id :: string where
  "out_id =
     ''Simple tftp firmware server '' @ [CHR 0x27] @ ''server-fw'' @ [CHR 0x27] @ '' v'' @ ''0.2.1'' @
       '' licensed GPL-3.0'' @ endl @
     ''(c) 2019-2021 Vitaliy.V.Shirinkin, e-mail: vitaliy.shirinkin@gmail.com'' @ endl"

definition out_help :: "string \<Rightarrow> string" where
  "out_help app =
     out_id @
     ''Some features:'' @ endl @
     ''  - Recursive search requested files by md5 sum in search directory'' @ endl @
     ''  - Use Firebird SQL server as file storage (optional requirement)'' @ endl @
     ''Usage: '' @ app @
       '' [<option1> [<option1 argument>]] [<option2> [<option2 argument>]] ... '' @ endl @
     ''Possible options:'' @ endl @
     ''  {-h|-H|-?|--help} Show help message'' @ endl @
     ''  {-l|-L|--ip|--listen} {<IPv4>|[<IPv6>]}[:port] Listening address and port'' @ endl @
     ''    (default 0.0.0.0:'' @ nat_str 69 @ '')'' @ endl @
     ''    Sample IPv4: 192.168.0.1:69'' @ endl @
     ''    Sample IPv6: [::1]:69'' @ endl @
     ''  {-s|-S|--syslog} <0...7> SYSLOG level flooding (default '' @ int_str 6 @ '')'' @ endl @
     ''  --lib-dir <directory> System library directory'' @ endl @
     ''  --lib-name <name> Firebird library filename (default '' @ ''libfbclient.so'' @ '')'' @ endl @
     ''  --root-dir <directory> Server root directory'' @ endl @
     ''  --search <directory> Directory for recursive search by md5 sum (may be much)'' @ endl @
     ''  --fb-db <database> Firebird access database name'' @ endl @
     ''  --fb-user <username> Firebird access user name'' @ endl @
     ''  --fb-pass <password> Firebird access password'' @ endl @
     ''  --fb-role <role> Firebird access role'' @ endl @
     ''  --fb-dialect <1...3> Firebird server dialect (default '' @ nat_str 3 @ '')'' @ endl @
     ''  --daemon Run as daemon'' @ endl @
     ''  --retransmit <N> Maximum retransmit count if fail'' @ endl @
     ''  --file-chuser <user name> Set user owner for created files (default root)'' @ endl @
     ''  --file-chgrp <group name> Set group owner for created files (default root)'' @ endl @
     ''    Warning: if user/group not exist then use root'' @ endl @
     ''  --file-chmod <permissions> Set permissions for created files (default 0664)'' @ endl @
     ''    Warning: can set only r/w bits - maximum 0666; can'' @ [CHR 0x27] @
       ''t set x-bits and superbits'' @ endl"

section \<open>Invariant\<close>

text \<open>The listening address stays a well-formed \<open>Addr\<close> and the syslog level a priority.\<close>

definition settings_ok :: "settings \<Rightarrow> bool" where
  "settings_ok s \<longleftrightarrow> addr_ok (local_base s) \<and> 0 \<le> use_syslog s \<and> use_syslog s \<le> 7"

lemma and_7_range: "0 \<le> (v AND 7 :: int)" "(v AND 7 :: int) \<le> 7"
  by (simp_all add: AND_upper2')

lemma load_long_option_frame:
  assumes "load_long_option s i a = Inr s'"
  shows "local_base s' = local_base s" "use_syslog s' = use_syslog s"
    "backup_dirs s' = (if i = 7 then backup_dirs s @ (case a of None \<Rightarrow> [] | Some d \<Rightarrow> [d]) else backup_dirs s)"
  using assms
  by (auto simp: load_long_option_def split: if_splits option.splits sum.splits)

lemma load_option_ok:
  assumes "pton_ok inet_pton" "load_option inet_pton rs g = Inr rs'" "settings_ok (snd rs)"
  shows "settings_ok (snd rs')"
  using assms
  by (cases rs) (auto simp: load_option_def settings_ok_def and_7_range addr_ok_set_string
      dest: load_long_option_frame split: if_splits option.splits sum.splits)

lemma load_loop_ok:
  "pton_ok inet_pton \<Longrightarrow> load_loop inet_pton rs gs = Inr rs' \<Longrightarrow> settings_ok (snd rs) \<Longrightarrow> settings_ok (snd rs')"
  by (induction inet_pton rs gs rule: load_loop.induct) (auto split: sum.splits dest: load_option_ok)

lemma settings_ok_new: "settings_ok settings_new"
  by (simp add: settings_ok_def settings_new_def addr_ok_set_port_u16 addr_ok_set_family addr_ok_new)

text \<open>The directories that the \<open>--search\<close> options of a command line name, in their order.\<close>

fun search_args :: "getopt_result list \<Rightarrow> string list" where
  "search_args [] = []"
| "search_args (g # gs) =
     (if go_opt g = NUL \<and> go_index g = 7 then (case go_arg g of None \<Rightarrow> [] | Some a \<Rightarrow> [a]) else [])
     @ search_args gs"

text \<open>Whether the command line asks for the help text.\<close>

definition help_asked :: "getopt_result \<Rightarrow> bool" where
  "help_asked g \<longleftrightarrow> go_opt g \<in> {CHR ''h'', CHR ''H'', CHR ''?''}"

lemma load_option_effect:
  assumes "load_option inet_pton (ret, s) g = Inr (ret', s')"
  shows "backup_dirs s' = backup_dirs s @ search_args [g]" "ret' \<longleftrightarrow> ret \<and> \<not> help_asked g"
  using assms
  by (auto simp: load_option_def help_asked_def load_long_option_frame
      split: if_splits option.splits sum.splits)

lemma load_loop_effect:
  "load_loop inet_pton (ret, s) gs = Inr (ret', s') \<Longrightarrow>
     backup_dirs s' = backup_dirs s @ search_args gs \<and> (ret' \<longleftrightarrow> ret \<and> \<not> (\<exists>g \<in> set gs. help_asked g))"
proof (induction gs arbitrary: ret s)
  case Nil
  then show ?case by simp
next
  case (Cons g gs)
  then obtain r1 s1 where 1: "load_option inet_pton (ret, s) g = Inr (r1, s1)"
    and 2: "load_loop inet_pton (r1, s1) gs = Inr (ret', s')"
    by (auto split: sum.splits)
  show ?case
    using Cons.IH [OF 2] load_option_effect [OF 1] by auto
qed

text \<open>The only option whose value can throw is \<open>--file-chmod\<close>.\<close>

definition bad_chmod :: "getopt_result \<Rightarrow> exn \<Rightarrow> bool" where
  "bad_chmod g e \<longleftrightarrow>
     go_opt g = NUL \<and> go_index g = 17 \<and> (\<exists>a. go_arg g = Some a \<and> stoi 8 a = Inl e)"

lemma load_option_error: "load_option inet_pton rs g = Inl e \<longleftrightarrow> bad_chmod g e"
  by (cases rs) (auto simp: load_option_def load_long_option_def bad_chmod_def
      split: if_splits option.splits sum.splits)

lemma load_loop_error:
  "load_loop inet_pton rs gs = Inl e \<Longrightarrow> \<exists>g \<in> set gs. bad_chmod g e"
  by (induction inet_pton rs gs rule: load_loop.induct) (auto simp: load_option_error split: sum.splits)

lemma load_loop_error_iff:
  "(\<exists>e. load_loop inet_pton rs gs = Inl e) \<longleftrightarrow> (\<exists>g \<in> set gs. \<exists>e. bad_chmod g e)"
proof (induction inet_pton rs gs rule: load_loop.induct)
  case (2 p rs g gs)
  show ?case
  proof (cases "load_option p rs g")
    case (Inl e)
    then show ?thesis using load_option_error [of p rs g e] by auto
  next
    case (Inr rs')
    then have "\<not> bad_chmod g e" for e using load_option_error [of p rs g e] by auto
    then show ?thesis using 2 Inr by auto
  qed
qed simp

section \<open>Properties\<close>

text \<open>
  C32. Whatever command line is given, if \<open>load_options\<close> returns then the settings keep their
  invariant (a well-formed listening address, a syslog priority), the search directories are
  exactly the arguments of the \<open>--search\<close> options in their order, and the result is false exactly
  when help was asked for or an option was not recognised.
\<close>

theorem load_options_sound:
  assumes "pton_ok inet_pton" "settings_ok s" "argc > 1"
    "load_options inet_pton s argc gs = Inr (ret, s')"
  shows "settings_ok s' \<and> backup_dirs s' = search_args gs \<and> (ret \<longleftrightarrow> \<not> (\<exists>g \<in> set gs. help_asked g))"
proof -
  have run: "load_loop inet_pton (True, s\<lparr>backup_dirs := []\<rparr>) gs = Inr (ret, s')"
    using assms(3,4) by (simp add: load_options_def)
  have "settings_ok (s\<lparr>backup_dirs := []\<rparr>)" using assms(2) by (simp add: settings_ok_def)
  then have "settings_ok s'" using load_loop_ok [OF assms(1) run] by simp
  with load_loop_effect [OF run] show ?thesis by simp
qed

theorem load_options_sound_witness:
  "let gs = [\<lparr>go_opt = NUL, go_index = 7, go_arg = Some ''/fw''\<rparr>,
             \<lparr>go_opt = CHR ''s'', go_index = 0, go_arg = Some ''15''\<rparr>,
             \<lparr>go_opt = NUL, go_index = 7, go_arg = Some ''/old''\<rparr>];
       r = load_options (\<lambda>_ _. None) settings_new 7 gs
   in \<exists>s'. r = Inr (True, s') \<and> settings_ok s' \<and> backup_dirs s' = [''/fw'', ''/old''] \<and> use_syslog s' = 7"
proof -
  let ?gs = "[\<lparr>go_opt = NUL, go_index = 7, go_arg = Some ''/fw''\<rparr>,
             \<lparr>go_opt = CHR ''s'', go_index = 0, go_arg = Some ''15''\<rparr>,
             \<lparr>go_opt = NUL, go_index = 7, go_arg = Some ''/old''\<rparr>]"
  let ?r = "load_options (\<lambda>_ _. None) settings_new 7 ?gs"
  have "(case ?r of Inl _ \<Rightarrow> False | Inr (ret, s') \<Rightarrow> ret \<and> use_syslog s' = 7)" by code_simp
  then obtain s' where r: "?r = Inr (True, s')" and u: "use_syslog s' = 7"
    by (auto split: sum.splits)
  have "settings_ok s' \<and> backup_dirs s' = search_args ?gs"
    using load_options_sound [OF _ settings_ok_new _ r] by (simp add: pton_ok_def)
  with r u show ?thesis by (auto simp: Let_def)
qed

text \<open>
  C33. \<open>load_options\<close> throws exactly when some \<open>--file-chmod\<close> option has a value that
  \<open>std::stoi\<close> in base 8 rejects: that conversion, unlike the others, is not inside a \<open>try\<close>.
\<close>

theorem load_options_throws_iff:
  assumes "argc > 1"
  shows "(\<exists>e. load_options inet_pton s argc gs = Inl e) \<longleftrightarrow>
    (\<exists>g \<in> set gs. go_opt g = NUL \<and> go_index g = 17 \<and>
       (\<exists>a e. go_arg g = Some a \<and> stoi 8 a = Inl e))"
proof -
  have "(\<exists>e. bad_chmod g e) \<longleftrightarrow> go_opt g = NUL \<and> go_index g = 17 \<and>
       (\<exists>a e. go_arg g = Some a \<and> stoi 8 a = Inl e)" for g
    by (auto simp: bad_chmod_def)
  then show ?thesis
    using assms load_loop_error_iff [of inet_pton "(True, s\<lparr>backup_dirs := []\<rparr>)" gs]
    by (simp add: load_options_def)
qed

theorem load_options_throws_iff_witness:
  "\<exists>e. load_options (\<lambda>_ _. None) settings_new 3
      [\<lparr>go_opt = NUL, go_index = 17, go_arg = Some ''rw-r--r--''\<rparr>] = Inl e"
proof -
  have "stoi 8 ''rw-r--r--'' = Inl Invalid_argument" by code_simp
  then show ?thesis
    using load_options_throws_iff [of 3 "\<lambda>_ _. None" settings_new
        "[\<lparr>go_opt = NUL, go_index = 17, go_arg = Some ''rw-r--r--''\<rparr>]"] by simp
qed

lemma load_loop_without_L:
  "load_loop inet_pton rs gs = load_loop inet_pton rs (filter (\<lambda>g. go_opt g \<noteq> CHR ''L'') gs)"
  by (induction inet_pton rs gs rule: load_loop.induct)
    (auto simp: load_option_def split: sum.splits prod.splits)

text \<open>
  The short option \<open>-L\<close>, which the option string accepts with an argument and the help text
  names as a way to set the listening address, has no effect at all.
\<close>

theorem listen_L_ignored:
  "load_options inet_pton s argc gs =
     load_options inet_pton s argc (filter (\<lambda>g. go_opt g \<noteq> CHR ''L'') gs)"
  by (simp add: load_options_def Let_def flip: load_loop_without_L)

end
