(* ===== verification/Base.thy ===== *)
theory Base
  imports Settings
begin

text \<open>
  Class \<open>Base\<close> (\<open>tftpBase.h\<close>, \<open>tftpBase.cpp\<close>): shared access to the settings. A
  \<open>shared_ptr<Settings>\<close> is an address in a heap of settings records; every object of the class
  has one such pointer and a mutex of its own. The first part models the operations as what they do
  between locking and unlocking, the last part models the locks themselves as a step relation.
\<close>

type_synonym sett_heap = "nat \<rightharpoonup> settings"

record base =
  settings_ptr :: nat

section \<open>Construction and assignment\<close>

text \<open>\<open>Base(sett)\<close>: a null pointer makes new settings, at an unused address.\<close>

definition base_new :: "sett_heap \<Rightarrow> nat \<Rightarrow> nat option \<Rightarrow> base \<times> sett_heap" where
  "base_new h fresh sett =
     (case sett of
        Some p \<Rightarrow> (\<lparr>settings_ptr = p\<rparr>, h)
      | None \<Rightarrow> (\<lparr>settings_ptr = fresh\<rparr>, h(fresh \<mapsto> settings_new)))"

definition base_assign :: "base \<Rightarrow> base \<Rightarrow> base" where
  "base_assign b src = (if settings_ptr b \<noteq> settings_ptr src then b\<lparr>settings_ptr := settings_ptr src\<rparr> else b)"

definition get_ptr :: "base \<Rightarrow> nat" where
  "get_ptr b = settings_ptr b"

text \<open>The settings behind the pointer of an object.\<close>

definition sett :: "sett_heap \<Rightarrow> base \<Rightarrow> settings" where
  "sett h b = (case h (settings_ptr b) of Some s \<Rightarrow> s | None \<Rightarrow> settings_new)"

section \<open>Getters on the settings\<close>

definition fin_slash :: "string \<Rightarrow> bool" where
  "fin_slash d \<longleftrightarrow> d \<noteq> [] \<and> last d = CHR ''/''"

definition get_root_dir :: "settings \<Rightarrow> string" where
  "get_root_dir s =
     (if root_dir s \<noteq> [] then root_dir s @ (if fin_slash (root_dir s) then [] else ''/'') else [])"

definition get_lib_dir :: "settings \<Rightarrow> string" where
  "get_lib_dir s = lib_dir s @ (if fin_slash (lib_dir s) then [] else ''/'')"

definition get_lib_name_fb :: "settings \<Rightarrow> string" where
  "get_lib_name_fb s = lib_name s"

definition get_retransmit_count :: "settings \<Rightarrow> u16" where
  "get_retransmit_count s = retransmit_count s"

definition get_connection :: "settings \<Rightarrow> string \<times> string \<times> string \<times> string \<times> u16" where
  "get_connection s = (db s, user s, pass s, role s, dialect s)"

definition server_addr :: "settings \<Rightarrow> addr" where
  "server_addr s = local_base s"

definition get_local_base_str :: "ntop \<Rightarrow> settings \<Rightarrow> string" where
  "get_local_base_str inet_ntop s = addr_str inet_ntop (local_base s)"

definition get_is_daemon :: "settings \<Rightarrow> bool" where
  "get_is_daemon s = is_daemon s"

definition get_serach_dir :: "settings \<Rightarrow> string list" where
  "get_serach_dir s = fold (\<lambda>one_dir ret. ret @ [one_dir]) (backup_dirs s) []"

definition get_file_chmod :: "settings \<Rightarrow> int" where
  "get_file_chmod s = file_chmod s"

definition get_file_chown_user :: "settings \<Rightarrow> string" where
  "get_file_chown_user s = file_chown_user s"

definition get_file_chown_grp :: "settings \<Rightarrow> string" where
  "get_file_chown_grp s = file_chown_grp s"

section \<open>Operations that go through the heap\<close>

datatype log_event = To_syslog log_lvl string | To_callback nat log_lvl string

text \<open>\<open>log\<close>: the syslog message carries \<open>to_string(lvl)\<close> and the text (the thread id is left
  out).\<close>

definition base_log :: "settings \<Rightarrow> log_lvl \<Rightarrow> string \<Rightarrow> log_event list" where
  "base_log s lvl msg =
     (if log_lvl_num lvl \<le> use_syslog s then [To_syslog lvl (log_lvl_str lvl @ '' '' @ msg)] else []) @
     (case log_cb s of None \<Rightarrow> [] | Some cb \<Rightarrow> [To_callback cb lvl msg])"

definition set_logger :: "sett_heap \<Rightarrow> base \<Rightarrow> nat option \<Rightarrow> sett_heap" where
  "set_logger h b new_logger = h(settings_ptr b \<mapsto> (sett h b)\<lparr>log_cb := new_logger\<rparr>)"

definition base_load_options ::
  "pton \<Rightarrow> sett_heap \<Rightarrow> base \<Rightarrow> int \<Rightarrow> getopt_result list \<Rightarrow> (bool \<times> sett_heap) res" where
  "base_load_options inet_pton h b argc gs =
     (case load_options inet_pton (sett h b) argc gs of
        Inl e \<Rightarrow> Inl e
      | Inr (ret, s) \<Rightarrow> Inr (ret, h(settings_ptr b \<mapsto> s)))"

section \<open>The locks\<close>

text \<open>
  \<open>begin_shared\<close> and \<open>begin_unique\<close> lock the mutex of the object for the rest of the method. The
  state is the list of the locks held: thread, object, and whether the lock is unique.
  \<open>std::shared_mutex\<close> grants a shared lock while nobody holds the mutex uniquely, and a unique one
  while nobody holds it at all.
\<close>

type_synonym lock = "nat \<times> nat \<times> bool"

definition can_begin_shared :: "lock list \<Rightarrow> nat \<Rightarrow> bool" where
  "can_begin_shared ls ob \<longleftrightarrow> (\<forall>(t, ob', u) \<in> set ls. ob' = ob \<longrightarrow> \<not> u)"

definition can_begin_unique :: "lock list \<Rightarrow> nat \<Rightarrow> bool" where
  "can_begin_unique ls ob \<longleftrightarrow> (\<forall>(t, ob', u) \<in> set ls. ob' \<noteq> ob)"

inductive lock_step :: "lock list \<Rightarrow> lock list \<Rightarrow> bool" where
  begin_shared: "can_begin_shared ls ob \<Longrightarrow> lock_step ls ((t, ob, False) # ls)"
| begin_unique: "can_begin_unique ls ob \<Longrightarrow> lock_step ls ((t, ob, True) # ls)"
| unlock: "lock_step (ls1 @ l # ls2) (ls1 @ ls2)"

inductive lock_reach :: "lock list \<Rightarrow> bool" where
  lock_init: "lock_reach []"
| lock_next: "lock_reach ls \<Longrightarrow> lock_step ls ls' \<Longrightarrow> lock_reach ls'"

text \<open>A unique lock excludes every other lock on the same object.\<close>

fun clash :: "lock \<Rightarrow> lock \<Rightarrow> bool" where
  "clash (t, ob, u) (t', ob', u') \<longleftrightarrow> ob = ob' \<and> (u \<or> u')"

fun exclusive :: "lock list \<Rightarrow> bool" where
  "exclusive [] = True"
| "exclusive (l # ls) = ((\<forall>l' \<in> set ls. \<not> clash l l') \<and> exclusive ls)"

lemma exclusive_append:
  "exclusive (xs @ ys) \<longleftrightarrow> exclusive xs \<and> exclusive ys \<and> (\<forall>l \<in> set xs. \<forall>l' \<in> set ys. \<not> clash l l')"
  by (induction xs) auto

lemma exclusive_step: "lock_step ls ls' \<Longrightarrow> exclusive ls \<Longrightarrow> exclusive ls'"
proof (induction rule: lock_step.induct)
  case (unlock ls1 l ls2)
  then show ?case by (auto simp: exclusive_append)
qed (fastforce simp: can_begin_shared_def can_begin_unique_def)+

lemma exclusive_reach: "lock_reach ls \<Longrightarrow> exclusive ls"
  by (induction rule: lock_reach.induct) (auto intro: exclusive_step)



text \<open>
  The mutex belongs to the object and the settings are shared: of two objects on the same
  settings each can be locked uniquely by its own thread at the same time, and what one of them then
  writes is what the other one reads. The locks do not make access to the settings exclusive.
\<close>

theorem shared_settings_not_exclusive:
  assumes "ob1 \<noteq> ob2" "settings_ptr b1 = settings_ptr b2"
  shows "lock_reach [(t2, ob2, True), (t1, ob1, True)] \<and>
    log_cb (sett (set_logger h b1 cb) b2) = cb"
proof
  have "lock_reach [(t1, ob1, True)]"
    by (rule lock_next [OF lock_init begin_unique]) (simp add: can_begin_unique_def)
  then show "lock_reach [(t2, ob2, True), (t1, ob1, True)]"
    by (rule lock_next [OF _ begin_unique]) (use assms in \<open>simp add: can_begin_unique_def\<close>)
qed (use assms in \<open>simp add: sett_def set_logger_def\<close>)

theorem shared_settings_not_exclusive_witness:
  "lock_reach [(2, 1, True), (1, 0, True)] \<and>
     log_cb (sett (set_logger (\<lambda>_. None) \<lparr>settings_ptr = 5\<rparr> (Some 3)) \<lparr>settings_ptr = 5\<rparr>) = Some 3"
  using shared_settings_not_exclusive [of 0 1 "\<lparr>settings_ptr = 5\<rparr>" "\<lparr>settings_ptr = 5\<rparr>" 2 1 "\<lambda>_. None" "Some 3"]
  by simp

section \<open>Lemmas\<close>

lemma get_serach_dir_eq: "get_serach_dir s = backup_dirs s"
proof -
  have "fold (\<lambda>d r. r @ [d]) ds acc = acc @ ds" for ds acc :: "string list"
    by (induction ds arbitrary: acc) auto
  then show ?thesis by (simp add: get_serach_dir_def)
qed

lemma get_root_dir_slash: "get_root_dir s = [] \<or> last (get_root_dir s) = CHR ''/''"
  by (auto simp: get_root_dir_def fin_slash_def)

lemma get_root_dir_idem: "root_dir s' = get_root_dir s \<Longrightarrow> get_root_dir s' = get_root_dir s"
  by (auto simp: get_root_dir_def fin_slash_def)

end
