(* ===== verification/DataMgrFile.thy ===== *)
theory DataMgrFile
  imports DataMgr Base
begin

text \<open>
  Class \<open>DataMgrFile\<close> (\<open>tftpDataMgrFile.h\<close>, \<open>tftpDataMgrFile.cpp\<close>): the data manager on
  files. The file system is a parameter: what \<open>stat\<close> answers for a path (or that it fails), the
  order in which a recursive directory iterator yields the entries and whether it ends with an
  error, which files can be opened, and the text of a failure. Paths follow the file system
  technical specification, whose \<open>std::experimental::filesystem\<close> the code uses. It is assumed that
  nobody else changes the file system during one call.
\<close>

section \<open>Paths\<close>

definition path_append :: "path \<Rightarrow> path \<Rightarrow> path" where
  "path_append p q =
     (if p = [] \<or> last p = CHR ''/'' \<or> q = [] \<or> hd q = CHR ''/'' then p @ q else p @ ''/'' @ q)"

definition path_filename :: "path \<Rightarrow> path" where
  "path_filename p = rev (takeWhile (\<lambda>c. c \<noteq> CHR ''/'') (rev p))"

definition extension :: "path \<Rightarrow> string" where
  "extension p =
     (let f = path_filename p
      in if f = ''.'' \<or> f = ''..'' \<or> CHR ''.'' \<notin> set f then []
         else CHR ''.'' # rev (takeWhile (\<lambda>c. c \<noteq> CHR ''.'') (rev f)))"

text \<open>\<open>replace_extension("")\<close>.\<close>

definition drop_extension :: "path \<Rightarrow> path" where
  "drop_extension p = take (length p - length (extension p)) p"

definition remove_filename :: "path \<Rightarrow> path" where
  "remove_filename p =
     (let d = rev (dropWhile (\<lambda>c. c \<noteq> CHR ''/'') (rev p));
          e = rev (dropWhile (\<lambda>c. c = CHR ''/'') (rev d))
      in if e = [] then d else e)"

definition replace_filename :: "path \<Rightarrow> string \<Rightarrow> path" where
  "replace_filename p nm = path_append (remove_filename p) nm"

lemma set_remove_filename: "set (remove_filename p) \<subseteq> set p"
proof -
  have dw: "set (dropWhile P xs) \<subseteq> set xs" for P and xs :: string
    by (meson set_dropWhileD subsetI)
  define d where "d = rev (dropWhile (\<lambda>c. c \<noteq> CHR ''/'') (rev p))"
  have "set d \<subseteq> set p" using dw [of "\<lambda>c. c \<noteq> CHR ''/''" "rev p"] by (simp add: d_def)
  moreover have "set (dropWhile (\<lambda>c. c = CHR ''/'') (rev d)) \<subseteq> set d"
    using dw [of "\<lambda>c. c = CHR ''/''" "rev d"] by simp
  ultimately show ?thesis by (auto simp: remove_filename_def Let_def simp flip: d_def)
qed

section \<open>The file system\<close>

datatype fnode = Reg "byte list" | Dir | Other

record filesys =
  fs_status :: "path \<Rightarrow> fnode option res"
  fs_walk :: "path \<Rightarrow> path list \<times> exn option"
  fs_readable :: "path \<Rightarrow> bool"
  fs_creatable :: "path \<Rightarrow> bool"
  fs_what :: "path \<Rightarrow> string"
  fs_uid :: "string \<Rightarrow> nat option"
  fs_gid :: "string \<Rightarrow> nat option"

text \<open>System calls see a path up to its first zero byte.\<close>

definition fs_stat :: "filesys \<Rightarrow> path \<Rightarrow> fnode option res" where
  "fs_stat fs p = fs_status fs (until_zero p)"

definition fs_exists :: "filesys \<Rightarrow> path \<Rightarrow> bool res" where
  "fs_exists fs p = (case fs_stat fs p of Inl e \<Rightarrow> Inl e | Inr n \<Rightarrow> Inr (n \<noteq> None))"

definition fs_is_regular :: "filesys \<Rightarrow> path \<Rightarrow> bool res" where
  "fs_is_regular fs p =
     (case fs_stat fs p of Inl e \<Rightarrow> Inl e | Inr n \<Rightarrow> Inr (case n of Some (Reg _) \<Rightarrow> True | _ \<Rightarrow> False))"

definition fs_is_directory :: "filesys \<Rightarrow> path \<Rightarrow> bool res" where
  "fs_is_directory fs p = (case fs_stat fs p of Inl e \<Rightarrow> Inl e | Inr n \<Rightarrow> Inr (n = Some Dir))"

definition fs_file_size :: "filesys \<Rightarrow> path \<Rightarrow> nat res" where
  "fs_file_size fs p = (case fs_stat fs p of Inr (Some (Reg bs)) \<Rightarrow> Inr (length bs) | _ \<Rightarrow> Inl Filesystem_error)"

text \<open>What an input stream gets to read, if the file can be opened. A directory can be opened for
  reading and has nothing to read.\<close>

definition fs_open_in :: "filesys \<Rightarrow> path \<Rightarrow> byte list option" where
  "fs_open_in fs p =
     (if fs_readable fs (until_zero p) then
        (case fs_stat fs p of
           Inr (Some (Reg bs)) \<Rightarrow> Some bs
         | Inr (Some Dir) \<Rightarrow> Some []
         | Inr (Some Other) \<Rightarrow> Some []
         | _ \<Rightarrow> None)
      else None)"

definition fs_set :: "filesys \<Rightarrow> path \<Rightarrow> byte list \<Rightarrow> filesys" where
  "fs_set fs p bs = fs\<lparr>fs_status := (fs_status fs)(until_zero p := Inr (Some (Reg bs)))\<rparr>"

section \<open>The manager\<close>

record dmf = data_mgr +
  dm_settings :: settings
  filename :: path
  file_in :: ifstream
  file_out :: ofstream

definition dmf_new :: dmf where
  "dmf_new = data_mgr.extend data_mgr_new
     \<lparr>dm_settings = settings_new, filename = [], file_in = ifs_closed, file_out = ofs_closed\<rparr>"

definition active :: "dmf \<Rightarrow> bool" where
  "active d \<longleftrightarrow> (request_type d = srv_read \<and> is_opened (file_in d)) \<or>
     (request_type d = srv_write \<and> os_opened (file_out d))"

subsection \<open>Search\<close>

text \<open>The first line of an md5 file, in a string of 2048 bytes that \<open>getline\<close> fills up to 2047.\<close>

definition md5_line :: "filesys \<Rightarrow> path \<Rightarrow> string" where
  "md5_line fs cur =
     (let l = (case fs_open_in fs cur of
                 None \<Rightarrow> []
               | Some bs \<Rightarrow> take 2047 (takeWhile (\<lambda>c. c \<noteq> CHR 0x0A) bs))
      in l @ replicate (2048 - length l) NUL)"

text \<open>One entry of the directory walk: the path found, if the entry is an md5 file for the sum.\<close>

definition md5_entry :: "filesys \<Rightarrow> string \<Rightarrow> path \<Rightarrow> path option res" where
  "md5_entry fs md5sum cur =
     (if do_lower (extension cur) \<noteq> ''.md5'' then Inr None
      else case regex_search regex_template_md5 (md5_line fs cur) of
        None \<Rightarrow> Inr None
      | Some (i, j, sm) \<Rightarrow>
          if cap_str sm 1 \<noteq> md5sum then Inr None
          else
            let curr1 = drop_extension cur;
                suffix = drop j (md5_line fs cur)
            in case fs_exists fs curr1 of
                 Inl e \<Rightarrow> Inl e
               | Inr True \<Rightarrow> Inr (Some curr1)
               | Inr False \<Rightarrow>
                   if suffix = [] then Inr None
                   else
                     let curr2 = replace_filename curr1 suffix
                     in case fs_exists fs curr2 of
                          Inl e \<Rightarrow> Inl e
                        | Inr ex \<Rightarrow> Inr (if ex then Some curr2 else None))"

fun search_entries :: "filesys \<Rightarrow> string \<Rightarrow> exn option \<Rightarrow> path list \<Rightarrow> path option res" where
  "search_entries fs md5sum walk_end [] = (case walk_end of None \<Rightarrow> Inr None | Some e \<Rightarrow> Inl e)"
| "search_entries fs md5sum walk_end (cur # rest) =
     (case md5_entry fs md5sum cur of
        Inl e \<Rightarrow> Inl e
      | Inr (Some p) \<Rightarrow> Inr (Some p)
      | Inr None \<Rightarrow> search_entries fs md5sum walk_end rest)"

definition search_by_md5 :: "filesys \<Rightarrow> path \<Rightarrow> string \<Rightarrow> path option res" where
  "search_by_md5 fs pth md5sum =
     (case fs_walk fs (until_zero pth) of (entries, walk_end) \<Rightarrow> search_entries fs md5sum walk_end entries)"

text \<open>A directory is searched if it exists and is a directory.\<close>

definition search_dir :: "filesys \<Rightarrow> string \<Rightarrow> path \<Rightarrow> path option res" where
  "search_dir fs md5sum dir =
     (case fs_exists fs dir of
        Inl e \<Rightarrow> Inl e
      | Inr False \<Rightarrow> Inr None
      | Inr True \<Rightarrow>
          (case fs_is_directory fs dir of
             Inl e \<Rightarrow> Inl e
           | Inr False \<Rightarrow> Inr None
           | Inr True \<Rightarrow> search_by_md5 fs dir md5sum))"

text \<open>The loops of both full searches: the first directory with a result ends the search.\<close>

fun search_first :: "(path \<Rightarrow> path option res) \<Rightarrow> path list \<Rightarrow> path option res" where
  "search_first f [] = Inr None"
| "search_first f (dir # dirs) =
     (case f dir of
        Inl e \<Rightarrow> Inl e
      | Inr (Some p) \<Rightarrow> Inr (Some p)
      | Inr None \<Rightarrow> search_first f dirs)"

definition full_search_md5 :: "filesys \<Rightarrow> settings \<Rightarrow> string \<Rightarrow> path option res" where
  "full_search_md5 fs s md5sum = search_first (search_dir fs md5sum) (get_root_dir s # get_serach_dir s)"

definition name_in_dir :: "filesys \<Rightarrow> string \<Rightarrow> path \<Rightarrow> path option res" where
  "name_in_dir fs nm dir =
     (let curr_file = path_append dir nm
      in case fs_exists fs curr_file of
           Inl e \<Rightarrow> Inl e
         | Inr False \<Rightarrow> Inr None
         | Inr True \<Rightarrow>
             (case fs_is_regular fs curr_file of
                Inl e \<Rightarrow> Inl e
              | Inr reg \<Rightarrow> Inr (if reg then Some curr_file else None)))"

definition full_search_name :: "filesys \<Rightarrow> settings \<Rightarrow> string \<Rightarrow> path option res" where
  "full_search_name fs s nm = search_first (name_in_dir fs nm) (get_root_dir s # get_serach_dir s)"

subsection \<open>Opening\<close>

text \<open>
  The file of a read request: by md5 sum if the name is one, else (or if that finds nothing) by
  name.
\<close>

definition find_for_read :: "filesys \<Rightarrow> settings \<Rightarrow> string \<Rightarrow> path option res" where
  "find_for_read fs s nm =
     (case (if match_md5 nm then full_search_md5 fs s nm else Inr None) of
        Inl e \<Rightarrow> Inl e
      | Inr (Some p) \<Rightarrow> Inr (Some p)
      | Inr None \<Rightarrow> full_search_name fs s nm)"

text \<open>
  The read branch of \<open>init\<close>. The file is opened once with the exceptions of \<open>failbit\<close> on, closed,
  and opened again. If the first \<open>open\<close> fails the error is caught and reported, but the stream is
  not open then, and \<open>close\<close> outside the \<open>try\<close> sets \<open>failbit\<close> once more, which throws.
\<close>

definition init_read :: "filesys \<Rightarrow> dmf \<Rightarrow> string \<Rightarrow> (bool \<times> dm_error \<times> dmf) res" where
  "init_read fs d nm =
     (case find_for_read fs (dm_settings d) nm of
        Inl e \<Rightarrow> Inl e
      | Inr None \<Rightarrow> Inr (False, dm_set_error d 1 ''File not found'', d\<lparr>filename := []\<rparr>)
      | Inr (Some p) \<Rightarrow>
          (let d1 = d\<lparr>filename := p\<rparr>
           in case fs_open_in fs p of
                None \<Rightarrow> Inl Ios_failure
              | Some bs \<Rightarrow>
                  (let d2 = d1\<lparr>file_in := ifs_opened bs\<rparr>
                   in case fs_file_size fs p of
                        Inl e \<Rightarrow> Inl e
                      | Inr sz \<Rightarrow> Inr (True, None, d2\<lparr>file_size := sz\<rparr>))))"

text \<open>The write branch: it must not exist, and is created.\<close>

definition init_write :: "filesys \<Rightarrow> dmf \<Rightarrow> string \<Rightarrow> (bool \<times> dm_error \<times> dmf \<times> filesys) res" where
  "init_write fs d nm =
     (let p = path_append (get_root_dir (dm_settings d)) nm;
          d1 = d\<lparr>filename := p\<rparr>
      in case fs_exists fs p of
           Inl e \<Rightarrow> Inl e
         | Inr True \<Rightarrow> Inr (False, dm_set_error d1 6 ''File already exists'', d1, fs)
         | Inr False \<Rightarrow>
             if fs_creatable fs (until_zero p)
             then Inr (True, None, d1\<lparr>file_out := ofs_opened\<rparr>, fs_set fs p [])
             else Inr (False, dm_set_error d1 0 (fs_what fs (until_zero p)),
                       d1\<lparr>file_out := ofs_closed\<lparr>os_fail := True\<rparr>\<rparr>, fs))"

definition dm_init :: "filesys \<Rightarrow> settings \<Rightarrow> dmf \<Rightarrow> options \<Rightarrow> (bool \<times> dm_error \<times> dmf \<times> filesys) res" where
  "dm_init fs s d opt =
     (let d0 = d\<lparr>dm_settings := s, has_error_cb := True, request_type := o_request_type opt\<rparr>
      in case o_request_type opt of
           srv_read \<Rightarrow>
             (case init_read fs d0 (o_filename opt) of
                Inl e \<Rightarrow> Inl e
              | Inr (ret, err, d') \<Rightarrow> Inr (ret, err, d', fs))
         | srv_write \<Rightarrow> init_write fs d0 (o_filename opt)
         | srv_unknown \<Rightarrow> Inr (False, None, d0, fs))"

subsection \<open>Transfer\<close>

text \<open>
  \<open>write\<close>: returned size, reported error, manager. The last argument says whether the device takes
  the data.
\<close>

definition dm_write :: "dmf \<Rightarrow> byte list \<Rightarrow> nat \<Rightarrow> bool \<Rightarrow> (int \<times> dm_error \<times> dmf) res" where
  "dm_write d bs position dev_ok =
     (if request_type d \<noteq> srv_write then Inl Runtime_error
      else if \<not> os_opened (file_out d) then
        Inr (- 1, dm_set_error d 0 ''Server write stream not opened'', d)
      else if bs = [] then Inr (0, None, d)
      else
        (case (if ofs_tellp (file_out d) \<noteq> ssize_of position
               then ofs_seekp (file_out d) position else Inr (file_out d)) of
           Inl e \<Rightarrow> Inl e
         | Inr f1 \<Rightarrow>
             (let begin_pos = ofs_tellp f1
              in if ofs_tellp f1 \<noteq> ssize_of position then
                   Inr (- 1, dm_set_error d 0 ''Server write stream seek failed'', d\<lparr>file_out := f1\<rparr>)
                 else
                   (case ofs_write f1 bs dev_ok of
                      Inl e \<Rightarrow> Inl e
                    | Inr f2 \<Rightarrow>
                        (let end_pos = ofs_tellp f2
                         in if end_pos < 0 then
                              Inr (- 1, dm_set_error d 0 ''Server write stream failed - no writed data'',
                                   d\<lparr>file_out := f2\<rparr>)
                            else Inr (end_pos - begin_pos, None, d\<lparr>file_out := f2\<rparr>))))))"

text \<open>\<open>read\<close>: returned size, bytes stored at the begin of the buffer, reported error, manager.\<close>

definition dm_read :: "dmf \<Rightarrow> nat \<Rightarrow> nat \<Rightarrow> (int \<times> byte list \<times> dm_error \<times> dmf) res" where
  "dm_read d buf_size position =
     (if request_type d \<noteq> srv_read then Inl Runtime_error
      else if is_opened (file_in d) then
        (let (curr_pos, f1) = ifs_tellg (file_in d);
             f2 = (if curr_pos \<noteq> ssize_of position then ifs_seekg f1 position else f1);
             ret_size = ssize_of (file_size d) - ssize_of position
         in if ret_size > 0 then
              (let (got, f3) = ifs_read f2 buf_size
               in Inr (if ret_size > int buf_size then int buf_size else ret_size, got, None,
                       d\<lparr>file_in := f3\<rparr>))
            else Inr (ret_size, [], None, d\<lparr>file_in := f2\<rparr>))
      else Inr (- 1, [], dm_set_error d 0 ''Server read stream not opened'', d))"

subsection \<open>Closing\<close>

datatype fs_call = Chown path nat nat | Permissions path nat | Close_fd int

text \<open>The permission bits of \<open>file_chmod\<close> that are passed on: read and write for owner, group and
  others (0666 is 438).\<close>

definition close_perms :: "int \<Rightarrow> nat" where
  "close_perms m =
     (if m AND 256 \<noteq> 0 then 256 else 0) + (if m AND 128 \<noteq> 0 then 128 else 0) +
     (if m AND 32 \<noteq> 0 then 32 else 0) + (if m AND 16 \<noteq> 0 then 16 else 0) +
     (if m AND 4 \<noteq> 0 then 4 else 0) + (if m AND 2 \<noteq> 0 then 2 else 0)"

text \<open>
  \<open>close\<close>: the content of a written file is in the file system once its stream is closed. The
  calls of \<open>chown\<close> and \<open>permissions\<close> are returned; their failures are only logged.
\<close>

definition dm_close :: "filesys \<Rightarrow> dmf \<Rightarrow> bool \<Rightarrow> (dmf \<times> filesys \<times> fs_call list) res" where
  "dm_close fs d dev_ok =
     (let d1 = (if is_opened (file_in d) then d\<lparr>file_in := ifs_close (file_in d)\<rparr> else d)
      in case (if os_opened (file_out d1) then ofs_close (file_out d1) dev_ok else Inr (file_out d1)) of
           Inl e \<Rightarrow> Inl e
         | Inr f \<Rightarrow>
             (let d2 = d1\<lparr>file_out := f\<rparr>;
                  fs1 = (if os_opened (file_out d1) then fs_set fs (filename d1) (os_data (file_out d1)) else fs);
                  usr = get_file_chown_user (dm_settings d);
                  grp = get_file_chown_grp (dm_settings d);
                  p = until_zero (filename d)
              in Inr (d2, fs1,
                   if request_type d = srv_write then
                     (if usr \<noteq> [] \<or> grp \<noteq> []
                      then [Chown p (get_uid_by_name (fs_uid fs) usr) (get_gid_by_name (fs_gid fs) grp)]
                      else []) @
                     [Permissions p (close_perms (get_file_chmod (dm_settings d)))]
                   else [])))"

section \<open>The manager implements the contracts\<close>

definition dm_source :: "dmf \<Rightarrow> byte list" where
  "dm_source d = is_data (file_in d)"

definition dm_ready :: "dmf \<Rightarrow> bool" where
  "dm_ready d \<longleftrightarrow> request_type d = srv_read \<and> is_opened (file_in d) \<and> \<not> is_eof (file_in d) \<and>
     \<not> is_fail (file_in d) \<and> file_size d = length (is_data (file_in d))"

definition dm_stored :: "dmf \<Rightarrow> byte list" where
  "dm_stored d = os_data (file_out d)"

definition dm_writable :: "dmf \<Rightarrow> bool" where
  "dm_writable d \<longleftrightarrow> request_type d = srv_write \<and> os_opened (file_out d) \<and>
     \<not> os_fail (file_out d) \<and> \<not> os_bad (file_out d)"

text \<open>After \<open>tellg\<close> and, if needed, \<open>seekg\<close> the stream is at the position asked for.\<close>

lemma seek_to:
  assumes "\<not> is_eof f" "\<not> is_fail f" "p < 2 ^ 63" "ifs_tellg f = (cp, f1)"
  shows "(if cp \<noteq> ssize_of p then ifs_seekg f1 p else f1) = f\<lparr>is_pos := p\<rparr>"
proof -
  have "cp = int (is_pos f)" "f1 = f" using assms ifs_tellg_good by auto
  moreover have "ssize_of p = int p" using assms(3) by (simp add: ssize_of_def)
  ultimately show ?thesis using assms ifs_seekg_good [of f p] by simp
qed

lemma dm_read_ready:
  assumes "dm_ready d" "p \<le> length (dm_source d)" "length (dm_source d) < 2 ^ 63"
  shows "dm_read d n p =
    (if p < length (dm_source d) then
       Inr (int (min n (length (dm_source d) - p)), take n (drop p (dm_source d)), None,
            d\<lparr>file_in := snd (ifs_read ((file_in d)\<lparr>is_pos := p\<rparr>) n)\<rparr>)
     else Inr (0, [], None, d\<lparr>file_in := (file_in d)\<lparr>is_pos := p\<rparr>\<rparr>))"
proof -
  let ?f = "file_in d"
  have f: "\<not> is_eof ?f" "\<not> is_fail ?f" "is_opened ?f" "request_type d = srv_read"
    "file_size d = length (is_data ?f)"
    using assms(1) by (auto simp: dm_ready_def)
  have p: "p < 2 ^ 63" using assms by simp
  obtain cp f1 where t: "ifs_tellg ?f = (cp, f1)" by fastforce
  note sk = seek_to [OF f(1,2) p t]
  have sz: "ssize_of (length (is_data ?f)) = int (length (is_data ?f))" "ssize_of p = int p"
    using assms(3) p by (simp_all add: ssize_of_def dm_source_def)
  have got: "fst (ifs_read (?f\<lparr>is_pos := p\<rparr>) n) = take n (drop p (is_data ?f))"
    using f by (simp add: ifs_read_def ifs_sentry_def Let_def)
  obtain bs f3 where rd: "ifs_read (?f\<lparr>is_pos := p\<rparr>) n = (bs, f3)" by fastforce
  have bs: "bs = take n (drop p (is_data ?f))" using got rd by simp
  have "dm_read d n p =
    (if int (length (is_data ?f)) - int p > 0 then
       Inr (if int (length (is_data ?f)) - int p > int n then int n else int (length (is_data ?f)) - int p,
            bs, None, d\<lparr>file_in := f3\<rparr>)
     else Inr (int (length (is_data ?f)) - int p, [], None, d\<lparr>file_in := ?f\<lparr>is_pos := p\<rparr>\<rparr>))"
    unfolding dm_read_def t Let_def prod.case sk using f rd by (simp add: sz)
  then show ?thesis
    using assms(2) by (auto simp: bs rd dm_source_def min_def of_nat_diff)
qed

interpretation rq: block_source dm_read dm_source dm_ready
proof
  fix d p n
  assume r: "dm_ready d" and s: "p + n \<le> length (dm_source d)" "length (dm_source d) < 2 ^ 63"
  have p: "p \<le> length (dm_source d)" using s by simp
  have "ifs_read ((file_in d)\<lparr>is_pos := p\<rparr>) n =
      (take n (drop p (dm_source d)), (file_in d)\<lparr>is_pos := p + n\<rparr>)"
    using r s ifs_read_good [of "(file_in d)\<lparr>is_pos := p\<rparr>" n] by (simp add: dm_ready_def dm_source_def)
  then show "\<exists>d'. dm_read d n p = Inr (int n, take n (drop p (dm_source d)), None, d') \<and>
      dm_ready d' \<and> dm_source d' = dm_source d"
    using r s unfolding dm_read_ready [OF r p s(2)] by (auto simp: dm_ready_def dm_source_def min_def)
next
  fix d p n
  assume r: "dm_ready d" and p: "p \<le> length (dm_source d)"
    and s: "length (dm_source d) < p + n" "length (dm_source d) < 2 ^ 63"
  show "\<exists>d'. dm_read d n p = Inr (int (length (dm_source d) - p), drop p (dm_source d), None, d') \<and>
      dm_source d' = dm_source d \<and> (p = length (dm_source d) \<longrightarrow> dm_ready d')"
    using r p s unfolding dm_read_ready [OF r p s(2)] by (auto simp: dm_source_def dm_ready_def min_def)
qed

text \<open>
  What \<open>write\<close> does with a stream that is good. A position whose signed value is negative cannot be
  sought, and the exception leaves \<open>write\<close>.
\<close>

lemma dm_write_writable:
  assumes "dm_writable d" "bs \<noteq> []" "p < 2 ^ 64"
  shows "dm_write d bs p ok =
    (if 2 ^ 63 \<le> p then Inl Ios_failure
     else if ok then
       Inr (int (length bs), None,
         d\<lparr>file_out := (file_out d)\<lparr>os_data := overlay (os_data (file_out d)) p bs, os_pos := p + length bs\<rparr>\<rparr>)
     else Inr (- 1, dm_set_error d 0 ''Server write stream failed - no writed data'',
         d\<lparr>file_out := (file_out d)\<lparr>os_pos := p, os_bad := True\<rparr>\<rparr>))"
proof -
  have f: "request_type d = srv_write" "os_opened (file_out d)" "\<not> os_fail (file_out d)" "\<not> os_bad (file_out d)"
    using assms(1) by (auto simp: dm_writable_def)
  have sp: "ssize_of p = (if 2 ^ 63 \<le> p then int p - 2 ^ 64 else int p)" using assms(3) by (simp add: ssize_of_def)
  have "(if ofs_tellp (file_out d) \<noteq> ssize_of p then ofs_seekp (file_out d) p else Inr (file_out d)) =
      (if 2 ^ 63 \<le> p then Inl Ios_failure else Inr ((file_out d)\<lparr>os_pos := p\<rparr>))"
    using f sp assms(3) by (auto simp: ofs_tellp_def ofs_seekp_def)
  then show ?thesis
    using f assms(2) sp unfolding dm_write_def by (simp add: ofs_tellp_def ofs_write_def Let_def)
qed

interpretation wq: block_sink dm_write dm_stored dm_writable
proof
  fix d p and bs :: "byte list"
  assume w: "dm_writable d" and bs: "bs \<noteq> []" and p: "p < (2::nat) ^ 63"
  then show "\<exists>d'. dm_write d bs p True = Inr (int (length bs), None, d') \<and> dm_writable d' \<and>
      dm_stored d' = overlay (dm_stored d) p bs"
    using dm_write_writable [OF w bs, of p True] by (simp add: dm_writable_def dm_stored_def)
qed (simp add: dm_write_def dm_writable_def)

section \<open>Search: lemmas\<close>

definition is_reg :: "filesys \<Rightarrow> path \<Rightarrow> bool" where
  "is_reg fs p \<longleftrightarrow> (\<exists>bs. fs_stat fs p = Inr (Some (Reg bs)))"

definition stat_ok :: "filesys \<Rightarrow> path \<Rightarrow> bool" where
  "stat_ok fs p \<longleftrightarrow> (\<exists>n. fs_stat fs p = Inr n)"

lemma name_in_dir_eq:
  "stat_ok fs (path_append dir nm) \<Longrightarrow>
     name_in_dir fs nm dir = Inr (if is_reg fs (path_append dir nm) then Some (path_append dir nm) else None)"
  by (auto simp: name_in_dir_def stat_ok_def is_reg_def fs_exists_def fs_is_regular_def Let_def
      split: bool.splits option.splits fnode.splits)

lemma search_first_find:
  "\<forall>dir \<in> set dirs. stat_ok fs (path_append dir nm) \<Longrightarrow>
     search_first (name_in_dir fs nm) dirs = Inr (find (is_reg fs) (map (\<lambda>dir. path_append dir nm) dirs))"
  by (induction dirs) (auto simp: name_in_dir_eq)

lemma search_first_Some:
  "search_first f dirs = Inr (Some p) \<Longrightarrow> \<exists>dir \<in> set dirs. f dir = Inr (Some p)"
  by (induction f dirs rule: search_first.induct) (auto split: sum.splits option.splits)

lemma md5_entry_Some:
  assumes "md5_entry fs md5sum cur = Inr (Some p)"
  shows "do_lower (extension cur) = ''.md5''" "fs_exists fs p = Inr True"
    "\<exists>i. take 32 (drop i (md5_line fs cur)) = md5sum \<and> i + 32 \<le> 2048 \<and>
       (p = drop_extension cur \<or> p = replace_filename (drop_extension cur) (drop (i + 32) (md5_line fs cur)))"
proof -
  obtain i j sm where m: "regex_search regex_template_md5 (md5_line fs cur) = Some (i, j, sm)"
    and c: "cap_str sm 1 = md5sum"
    using assms by (auto simp: md5_entry_def split: if_splits option.splits)
  have "length (md5_line fs cur) = 2048" by (auto simp: md5_line_def Let_def split: option.splits)
  moreover have "p = drop_extension cur \<or> p = replace_filename (drop_extension cur) (drop j (md5_line fs cur))"
    using assms m by (auto simp: md5_entry_def Let_def split: if_splits sum.splits bool.splits)
  ultimately show "\<exists>i. take 32 (drop i (md5_line fs cur)) = md5sum \<and> i + 32 \<le> 2048 \<and>
      (p = drop_extension cur \<or> p = replace_filename (drop_extension cur) (drop (i + 32) (md5_line fs cur)))"
    using regex_search_md5 [OF m] c by auto
  show "do_lower (extension cur) = ''.md5''" "fs_exists fs p = Inr True"
    using assms m by (auto simp: md5_entry_def Let_def split: if_splits sum.splits bool.splits)
qed

lemma search_entries_Some:
  "search_entries fs md5sum we es = Inr (Some p) \<Longrightarrow> \<exists>cur \<in> set es. md5_entry fs md5sum cur = Inr (Some p)"
  by (induction fs md5sum we es rule: search_entries.induct) (auto split: sum.splits option.splits)

lemma search_dir_Some:
  assumes "search_dir fs md5sum dir = Inr (Some p)"
  shows "\<exists>cur \<in> set (fst (fs_walk fs (until_zero dir))). md5_entry fs md5sum cur = Inr (Some p)"
  using assms
  by (auto simp: search_dir_def search_by_md5_def split: sum.splits bool.splits prod.splits
      dest: search_entries_Some)

lemma md5_entry_line:
  assumes "do_lower (extension cur) = ''.md5''" "md5_line fs cur = h @ r" "length h = 32"
    "\<forall>c \<in> set h. is_hex c" "r \<noteq> []"
  shows "md5_entry fs h cur =
    (case fs_exists fs (drop_extension cur) of
       Inl e \<Rightarrow> Inl e
     | Inr True \<Rightarrow> Inr (Some (drop_extension cur))
     | Inr False \<Rightarrow>
         (case fs_exists fs (replace_filename (drop_extension cur) r) of
            Inl e \<Rightarrow> Inl e
          | Inr ex \<Rightarrow> Inr (if ex then Some (replace_filename (drop_extension cur) r) else None)))"
proof -
  have "\<forall>k < 32. is_hex ((h @ r) ! k)" using assms(3,4) by (simp add: nth_append)
  then have "regex_search regex_template_md5 (h @ r) = Some (0, 32, Map.empty(1 \<mapsto> h))"
    using regex_search_md5_at_0 [of "h @ r"] assms(3) by simp
  then show ?thesis using assms by (simp add: md5_entry_def cap_str_def Let_def split: sum.split bool.split)
qed

lemma md5_line_eq:
  assumes "fs_open_in fs cur = Some (l @ CHR 0x0A # rest)" "CHR 0x0A \<notin> set l" "length l \<le> 2047"
  shows "md5_line fs cur = l @ replicate (2048 - length l) NUL"
proof -
  have "takeWhile (\<lambda>c. c \<noteq> CHR 0x0A) (l @ CHR 0x0A # rest) = l"
    using assms(2) by (subst takeWhile_append2) auto
  then show ?thesis using assms by (simp add: md5_line_def)
qed

section \<open>Properties\<close>

text \<open>A file system for examples: the nodes listed, everything readable and creatable.\<close>

definition plain_fs :: "(path \<times> fnode) list \<Rightarrow> (path \<Rightarrow> path list) \<Rightarrow> filesys" where
  "plain_fs nodes walk =
     \<lparr>fs_status = (\<lambda>p. Inr (map_of nodes p)), fs_walk = (\<lambda>p. (walk p, None)),
      fs_readable = (\<lambda>_. True), fs_creatable = (\<lambda>_. True), fs_what = (\<lambda>_. []),
      fs_uid = (\<lambda>_. None), fs_gid = (\<lambda>_. None)\<rparr>"

text \<open>
  C24. The search by name finds the first regular file among the root directory and the search
  directories in their order, and only looks at the requested name appended to each of them. The
  hypothesis says that the system can answer for those paths.
\<close>

theorem full_search_name_first:
  assumes "\<forall>dir \<in> set (get_root_dir s # backup_dirs s). stat_ok fs (path_append dir nm)"
  shows "full_search_name fs s nm =
    Inr (find (is_reg fs) (map (\<lambda>dir. path_append dir nm) (get_root_dir s # backup_dirs s)))"
  unfolding full_search_name_def get_serach_dir_eq by (rule search_first_find [OF assms])

theorem full_search_name_first_witness:
  "full_search_name (plain_fs [(''/b/fw.bin'', Reg ''x'')] (\<lambda>_. []))
     (settings_new\<lparr>root_dir := ''/r'', backup_dirs := [''/a'', ''/b'']\<rparr>) ''fw.bin'' = Inr (Some ''/b/fw.bin'')"
proof -
  let ?fs = "plain_fs [(''/b/fw.bin'', Reg ''x'')] (\<lambda>_. [])"
  let ?s = "settings_new\<lparr>root_dir := ''/r'', backup_dirs := [''/a'', ''/b'']\<rparr>"
  have ok: "stat_ok ?fs p" for p by (simp add: stat_ok_def fs_stat_def plain_fs_def)
  have z: "until_zero (path_append ''/r/'' ''fw.bin'') = ''/r/fw.bin''"
    "until_zero (path_append ''/a'' ''fw.bin'') = ''/a/fw.bin''"
    "until_zero (path_append ''/b'' ''fw.bin'') = ''/b/fw.bin''" by code_simp+
  show ?thesis
    using full_search_name_first [of ?s ?fs "''fw.bin''"] ok
    by (simp add: get_root_dir_def fin_slash_def is_reg_def fs_stat_def plain_fs_def z path_append_def)
qed

text \<open>
  C25. A search by md5 sum only returns what it may return: the result exists, and some entry of the
  walk through the root directory or a search directory is an md5 file whose first line contains the
  requested sum; the result is the path of that entry without its extension, or the name that follows
  the sum in the line, in the directory of the entry.
\<close>

theorem full_search_md5_sound:
  assumes "full_search_md5 fs s md5sum = Inr (Some p)"
  shows "fs_exists fs p = Inr True \<and>
    (\<exists>dir \<in> set (get_root_dir s # backup_dirs s). \<exists>cur \<in> set (fst (fs_walk fs (until_zero dir))).
       do_lower (extension cur) = ''.md5'' \<and>
       (\<exists>i. take 32 (drop i (md5_line fs cur)) = md5sum \<and>
          (p = drop_extension cur \<or> p = replace_filename (drop_extension cur) (drop (i + 32) (md5_line fs cur)))))"
proof -
  obtain dir where "dir \<in> set (get_root_dir s # backup_dirs s)" "search_dir fs md5sum dir = Inr (Some p)"
    using search_first_Some [OF assms [unfolded full_search_md5_def get_serach_dir_eq]] by auto
  then obtain cur where "cur \<in> set (fst (fs_walk fs (until_zero dir)))" "md5_entry fs md5sum cur = Inr (Some p)"
    using search_dir_Some by blast
  with \<open>dir \<in> _\<close> show ?thesis using md5_entry_Some by blast
qed

definition demo_md5 :: string where
  "demo_md5 = ''0123456789abcdef0123456789ABCDEF''"

definition demo_md5_fs :: filesys where
  "demo_md5_fs =
     plain_fs [(''/fw'', Dir), (''/fw/'', Dir), (''/fw/a.md5'', Reg (demo_md5 @ [CHR 0x0A])), (''/fw/a'', Reg ''data'')]
       (\<lambda>p. if p = ''/fw/'' then [''/fw/a.md5'', ''/fw/a''] else [])"

lemma demo_md5_hash: "length demo_md5 = 32" "\<forall>c \<in> set demo_md5. is_hex c" "CHR 0x0A \<notin> set demo_md5"
  by code_simp+

lemma demo_md5_search:
  "full_search_md5 demo_md5_fs (settings_new\<lparr>root_dir := ''/fw''\<rparr>) demo_md5 = Inr (Some ''/fw/a'')"
proof -
  have "fs_open_in demo_md5_fs ''/fw/a.md5'' = Some (demo_md5 @ [CHR 0x0A])" by code_simp
  then have l: "md5_line demo_md5_fs ''/fw/a.md5'' = demo_md5 @ replicate 2016 NUL"
    using md5_line_eq demo_md5_hash by simp
  have e: "do_lower (extension ''/fw/a.md5'') = ''.md5''" "drop_extension ''/fw/a.md5'' = ''/fw/a''"
    "fs_exists demo_md5_fs ''/fw/a'' = Inr True" by code_simp+
  have m: "md5_entry demo_md5_fs demo_md5 ''/fw/a.md5'' = Inr (Some ''/fw/a'')"
    using md5_entry_line [OF e(1) l demo_md5_hash(1,2)] e(2,3) by simp
  have d: "get_root_dir (settings_new\<lparr>root_dir := ''/fw''\<rparr>) = ''/fw/''"
    "fs_exists demo_md5_fs ''/fw/'' = Inr True" "fs_is_directory demo_md5_fs ''/fw/'' = Inr True"
    "fs_walk demo_md5_fs ''/fw/'' = ([''/fw/a.md5'', ''/fw/a''], None)" by code_simp+
  show ?thesis using m by (simp add: full_search_md5_def search_dir_def search_by_md5_def d)
qed

theorem full_search_md5_sound_witness:
  "fs_exists demo_md5_fs ''/fw/a'' = Inr True \<and>
    (\<exists>dir \<in> {''/fw/''}. \<exists>cur \<in> set (fst (fs_walk demo_md5_fs (until_zero dir))).
       do_lower (extension cur) = ''.md5'' \<and>
       (\<exists>i. take 32 (drop i (md5_line demo_md5_fs cur)) = demo_md5 \<and>
          (''/fw/a'' = drop_extension cur \<or>
           ''/fw/a'' = replace_filename (drop_extension cur) (drop (i + 32) (md5_line demo_md5_fs cur)))))"
proof -
  have r: "full_search_md5 demo_md5_fs (settings_new\<lparr>root_dir := ''/fw''\<rparr>) demo_md5 = Inr (Some ''/fw/a'')"
    by (rule demo_md5_search)
  have "get_root_dir (settings_new\<lparr>root_dir := ''/fw''\<rparr>) = ''/fw/''" "backup_dirs settings_new = []"
    by code_simp+
  then show ?thesis using full_search_md5_sound [OF r] by simp
qed

text \<open>
  An md5 file in the format of \<open>md5sum\<close> (sum, two spaces, name) is not understood: when the
  file named like the md5 file does not exist, the path that is tried has the two spaces in front of
  the name, because the rest of the line after the sum is used as it stands.
\<close>

theorem md5sum_format_name_has_spaces:
  assumes "do_lower (extension cur) = ''.md5''" "length h = 32" "\<forall>c \<in> set h. is_hex c"
    "md5_line fs cur = h @ ''  '' @ nm @ replicate k NUL" "0 < k" "NUL \<notin> set nm"
    "fs_exists fs (drop_extension cur) = Inr False" "NUL \<notin> set (drop_extension cur)"
    "fs_stat fs (path_append (remove_filename (drop_extension cur)) (''  '' @ nm)) = Inr None"
  shows "md5_entry fs h cur = Inr None"
proof -
  let ?d = "remove_filename (drop_extension cur)"
  have d: "NUL \<notin> set ?d"
    using assms(8) set_remove_filename by blast
  have app: "path_append ?d ((''  '' @ nm) @ replicate k NUL) = path_append ?d (''  '' @ nm) @ replicate k NUL"
    by (simp add: path_append_def)
  have z: "NUL \<notin> set (path_append ?d (''  '' @ nm))" using d assms(6) by (auto simp: path_append_def)
  have "until_zero (path_append ?d (''  '' @ nm) @ replicate k NUL) = until_zero (path_append ?d (''  '' @ nm))"
    using z assms(5) until_zero_id [OF z]
    by (cases k) (simp_all add: until_zero_terminated)
  then have "fs_exists fs (replace_filename (drop_extension cur) (''  '' @ nm @ replicate k NUL)) = Inr False"
    using assms(9) app by (simp add: replace_filename_def fs_exists_def fs_stat_def)
  then show ?thesis
    using md5_entry_line [OF assms(1) _ assms(2,3), of fs "''  '' @ nm @ replicate k NUL"] assms(4,7) by simp
qed

definition demo_md5sum_fs :: filesys where
  "demo_md5sum_fs =
     plain_fs [(''/fw/sums.md5'', Reg (demo_md5 @ ''  fw.bin'' @ [CHR 0x0A])), (''/fw/fw.bin'', Reg ''data'')]
       (\<lambda>p. [''/fw/sums.md5'', ''/fw/fw.bin''])"

theorem md5sum_format_name_has_spaces_witness:
  "md5_entry demo_md5sum_fs demo_md5 ''/fw/sums.md5'' = Inr None \<and>
   fs_exists demo_md5sum_fs ''/fw/fw.bin'' = Inr True"
proof
  let ?fs = demo_md5sum_fs
  have "fs_open_in ?fs ''/fw/sums.md5'' = Some ((demo_md5 @ ''  fw.bin'') @ [CHR 0x0A])" by code_simp
  then have l: "md5_line ?fs ''/fw/sums.md5'' = demo_md5 @ ''  '' @ ''fw.bin'' @ replicate 2008 NUL"
    using md5_line_eq [of ?fs _ "demo_md5 @ ''  fw.bin''" "[]"] demo_md5_hash by simp
  have e: "do_lower (extension ''/fw/sums.md5'') = ''.md5''"
    "fs_exists ?fs (drop_extension ''/fw/sums.md5'') = Inr False"
    "NUL \<notin> set (drop_extension ''/fw/sums.md5'')"
    "fs_stat ?fs (path_append (remove_filename (drop_extension ''/fw/sums.md5'')) (''  '' @ ''fw.bin'')) = Inr None"
    by code_simp+
  show "md5_entry ?fs demo_md5 ''/fw/sums.md5'' = Inr None"
    by (rule md5sum_format_name_has_spaces [OF e(1) demo_md5_hash(1,2) l _ _ e(2-4)]) simp_all
  show "fs_exists ?fs ''/fw/fw.bin'' = Inr True" by code_simp
qed

lemma dm_init_read_outcome:
  assumes "o_request_type opt = srv_read" "dm_init fs s dmf_new opt = Inr (ret, err, d, fs')"
  shows "fs' = fs \<and>
    (if ret then err = None \<and> active d \<and> dm_ready d \<and> fs_stat fs (filename d) = Inr (Some (Reg (dm_source d)))
     else err = Some (1, ''File not found''))"
  using assms
  by (auto simp: dm_init_def init_read_def Let_def dm_set_error_def active_def dm_ready_def dm_source_def
      fs_file_size_def fs_open_in_def ifs_opened_def
      split: sum.splits option.splits fnode.splits if_splits)


definition demo_read_fs :: filesys where
  "demo_read_fs = plain_fs [(''/r/fw.bin'', Reg ''abc'')] (\<lambda>_. [])"

definition demo_read_opt :: options where
  "demo_read_opt = options_new\<lparr>o_request_type := srv_read, o_filename := ''fw.bin''\<rparr>"


lemma dm_init_write_outcome:
  assumes "o_request_type opt = srv_write" "dm_init fs s dmf_new opt = Inr (ret, err, d, fs')"
  shows "filename d = path_append (get_root_dir s) (o_filename opt)" "request_type d = srv_write"
    "dm_settings d = s"
    "ret \<Longrightarrow> fs_stat fs (filename d) = Inr None \<and> err = None \<and> active d \<and> dm_writable d \<and> dm_stored d = [] \<and>
       fs' = fs_set fs (filename d) []"
    "\<not> ret \<Longrightarrow> fs' = fs \<and> \<not> active d"
    "fs_stat fs (filename d) = Inr (Some n) \<Longrightarrow> \<not> ret \<and> err = Some (6, ''File already exists'')"
  using assms
  by (auto simp: dm_init_def init_write_def Let_def dm_set_error_def active_def dm_writable_def dm_stored_def
      fs_exists_def ofs_opened_def ofs_closed_def dmf_new_def data_mgr.defs
      split: sum.splits option.splits bool.splits if_splits)

text \<open>
  C22. Opening for a write request never touches an existing file: if \<open>init\<close> succeeds then nothing
  existed at the path, the file has been created empty and the manager is ready to store from its
  first byte, with no error reported; if something exists there, \<open>init\<close> returns false and reports
  error 6, "File already exists".
\<close>

theorem dm_init_write:
  assumes "o_request_type opt = srv_write" "dm_init fs s dmf_new opt = Inr (ret, err, d, fs')"
  shows "(ret \<longrightarrow> fs_stat fs (filename d) = Inr None \<and> err = None \<and> active d \<and> dm_writable d \<and>
            dm_stored d = [] \<and> fs' = fs_set fs (filename d) []) \<and>
    (\<not> ret \<longrightarrow> fs' = fs \<and> \<not> active d) \<and>
    (\<forall>n. fs_stat fs (filename d) = Inr (Some n) \<longrightarrow> \<not> ret \<and> err = Some (6, ''File already exists''))"
  using dm_init_write_outcome(4-6) [OF assms] by blast

definition demo_write_opt :: options where
  "demo_write_opt = options_new\<lparr>o_request_type := srv_write, o_filename := ''fw.bin''\<rparr>"

lemma demo_write_rejected:
  "\<exists>d fs'. dm_init demo_read_fs (settings_new\<lparr>root_dir := ''/r''\<rparr>) dmf_new demo_write_opt =
     Inr (False, Some (6, ''File already exists''), d, fs') \<and> filename d = ''/r/fw.bin''"
proof -
  let ?r = "dm_init demo_read_fs (settings_new\<lparr>root_dir := ''/r''\<rparr>) dmf_new demo_write_opt"
  have "case ?r of Inl _ \<Rightarrow> False | Inr (ret, err, d, fs') \<Rightarrow>
      \<not> ret \<and> err = Some (6, ''File already exists'') \<and> filename d = ''/r/fw.bin''" by code_simp
  then show ?thesis by (auto split: sum.splits)
qed

theorem dm_init_write_witness:
  "\<exists>d fs'. dm_init demo_read_fs (settings_new\<lparr>root_dir := ''/r''\<rparr>) dmf_new demo_write_opt =
     Inr (False, Some (6, ''File already exists''), d, fs') \<and> fs' = demo_read_fs \<and> \<not> active d"
proof -
  obtain d fs' where r: "dm_init demo_read_fs (settings_new\<lparr>root_dir := ''/r''\<rparr>) dmf_new demo_write_opt =
     Inr (False, Some (6, ''File already exists''), d, fs')" using demo_write_rejected by blast
  then show ?thesis using dm_init_write [OF _ r] by (simp add: demo_write_opt_def)
qed

lemma dm_close_unopened: "\<not> os_opened (file_out d) \<Longrightarrow> \<exists>d' calls. dm_close fs d dev_ok = Inr (d', fs, calls)"
  by (cases "is_opened (file_in d)") (auto simp: dm_close_def Let_def)

lemma dm_close_perms:
  assumes "request_type d = srv_write" "dm_close fs d dev_ok = Inr (d', fs', calls)"
  shows "Permissions (until_zero (filename d)) (close_perms (file_chmod (dm_settings d))) \<in> set calls"
  using assms by (auto simp: dm_close_def Let_def get_file_chmod_def split: sum.splits if_splits)



text \<open>
  A file that exists but cannot be opened for reading makes \<open>init\<close> throw: the error is caught
  and reported, but the \<open>close\<close> of the stream that is not open is outside the \<open>try\<close> block and
  runs while \<open>failbit\<close> still throws.
\<close>

theorem unreadable_file_throws:
  assumes "o_request_type opt = srv_read" "find_for_read fs s (o_filename opt) = Inr (Some p)"
    "\<not> fs_readable fs (until_zero p)"
  shows "dm_init fs s d opt = Inl Ios_failure"
  using assms by (simp add: dm_init_def init_read_def fs_open_in_def)

theorem unreadable_file_throws_witness:
  "dm_init (demo_read_fs\<lparr>fs_readable := (\<lambda>_. False)\<rparr>) (settings_new\<lparr>root_dir := ''/r''\<rparr>) dmf_new demo_read_opt =
     Inl Ios_failure"
proof -
  have "o_request_type demo_read_opt = srv_read" "o_filename demo_read_opt = ''fw.bin''" by code_simp+
  moreover have "find_for_read (demo_read_fs\<lparr>fs_readable := (\<lambda>_. False)\<rparr>) (settings_new\<lparr>root_dir := ''/r''\<rparr>) ''fw.bin'' =
      Inr (Some ''/r/fw.bin'')" by code_simp
  ultimately show ?thesis
    using unreadable_file_throws [of demo_read_opt "demo_read_fs\<lparr>fs_readable := (\<lambda>_. False)\<rparr>"
        "settings_new\<lparr>root_dir := ''/r''\<rparr>" "''/r/fw.bin''" dmf_new] by simp
qed

lemma and_single_bit: "(m AND 2 ^ k :: int) = (if bit m k then 2 ^ k else 0)"
  by (rule bit_eqI) (auto simp: bit_and_iff bit_exp_iff)

text \<open>
  The permissions set on a received file are the read and write bits of the configured mode and
  nothing else: execute bits and the special bits are masked out, whatever is configured.
\<close>

theorem close_perms_mask: "int (close_perms m) = m AND 0x1B6"
proof -
  have s: "(m AND 256 :: int) = (if bit m 8 then 256 else 0)" "(m AND 128 :: int) = (if bit m 7 then 128 else 0)"
    "(m AND 32 :: int) = (if bit m 5 then 32 else 0)" "(m AND 16 :: int) = (if bit m 4 then 16 else 0)"
    "(m AND 4 :: int) = (if bit m 2 then 4 else 0)" "(m AND 2 :: int) = (if bit m 1 then 2 else 0)"
    using and_single_bit [of m 8] and_single_bit [of m 7] and_single_bit [of m 5]
      and_single_bit [of m 4] and_single_bit [of m 2] and_single_bit [of m 1] by simp_all
  have "(0x1B6 :: int) = 256 OR 128 OR 32 OR 16 OR 4 OR 2" by simp
  then have "m AND 0x1B6 = (m AND 256) OR (m AND 128) OR (m AND 32) OR (m AND 16) OR (m AND 4) OR (m AND 2)"
    by (simp only: bit.conj_disj_distrib)
  then show ?thesis unfolding close_perms_def s by auto
qed

end
