(* ===== verification/Session.thy ===== *)
theory Session
  imports SmBufEx DataMgrFile
begin

text \<open>
  Class \<open>Session\<close> (\<open>tftpSession.h\<close>, \<open>tftpSession.cpp\<close>): one transfer with one client. The
  record \<open>session\<close> has the fields of the class. The local variables of \<open>run\<close> and what its loop
  acts on (the file system, the packets handed to \<open>sendto\<close>) are the record \<open>run_state\<close>; one
  iteration of the loop is \<open>run_step\<close>. Everything an iteration asks the system for is an argument,
  the record \<open>env\<close>: the clock, the result of \<open>recvfrom\<close> and of \<open>sendto\<close>, whether the device
  takes written data, the results of \<open>socket\<close> and \<open>bind\<close>. An exception inside \<open>run\<close> leaves
  the thread and ends the server; it is the left value of the result.
\<close>

section \<open>The class\<close>

record session =
  stat :: state
  finished :: bool
  my_addr :: addr
  cl_addr :: addr
  sock :: int
  stage :: nat
  error_code :: u16
  error_message :: string
  opts :: options
  file_man :: "dmf option"
  sess_settings :: settings

definition session_new :: "settings \<Rightarrow> session" where
  "session_new s =
     \<lparr>stat = need_init, finished = False, my_addr = addr_new, cl_addr = addr_new, sock = 0, stage = 0,
      error_code = 0, error_message = [], opts = options_new, file_man = None, sess_settings = s\<rparr>"

text \<open>The move assignment (the moved-from object keeps what is swapped).\<close>

definition session_move :: "session \<Rightarrow> session \<Rightarrow> session \<times> session" where
  "session_move this val =
     (this\<lparr>sess_settings := sess_settings val, stat := stat val, finished := finished val,
           my_addr := my_addr val, cl_addr := cl_addr val, sock := sock val, stage := stage val,
           error_code := error_code val, error_message := error_message val, opts := opts val,
           file_man := file_man val\<rparr>,
      val\<lparr>error_message := error_message this, opts := opts this, file_man := file_man this\<rparr>)"

text \<open>The transitions \<open>switch_to\<close> accepts besides staying.\<close>

fun allowed :: "state \<Rightarrow> state \<Rightarrow> bool" where
  "allowed need_init n = (n = finish \<or> n = error_and_stop \<or> n = ack_options \<or> n = data_tx \<or> n = ack_tx)"
| "allowed error_and_stop n = (n = finish)"
| "allowed ack_options n = (n = data_rx \<or> n = data_tx \<or> n = ack_rx \<or> n = ack_tx)"
| "allowed data_tx n = (n = ack_rx \<or> n = error_and_stop)"
| "allowed data_rx n = (n = ack_tx \<or> n = retransmit)"
| "allowed ack_tx n = (n = data_rx \<or> n = finish)"
| "allowed ack_rx n = (n = data_tx \<or> n = retransmit \<or> n = finish)"
| "allowed retransmit n = (n = data_tx \<or> n = ack_tx \<or> n = error_and_stop)"
| "allowed finish n = False"

definition switch_to :: "session \<Rightarrow> state \<Rightarrow> bool \<times> session" where
  "switch_to s new_state =
     (let ret = (stat s = new_state \<or> allowed (stat s) new_state)
      in (ret, s\<lparr>stat := (if ret then new_state else finish)\<rparr>))"

definition is_finished :: "session \<Rightarrow> bool" where
  "is_finished s \<longleftrightarrow> stat s = finish"

definition block_size :: "session \<Rightarrow> u16" where
  "block_size s = word_of_int (blksize (opts s))"

definition blk_num_local :: "session \<Rightarrow> u16" where
  "blk_num_local s = of_nat (stage s AND 0xFFFF)"

definition windowsize :: "session \<Rightarrow> nat" where
  "windowsize s = (if windowsize_opt (opts s) < 1 then 1 else nat (windowsize_opt (opts s)))"

definition is_window_close :: "session \<Rightarrow> nat \<Rightarrow> bool" where
  "is_window_close s curr_stage \<longleftrightarrow> curr_stage mod windowsize s = 0"

definition step_back_window :: "session \<Rightarrow> nat \<Rightarrow> nat" where
  "step_back_window s curr_stage =
     (if curr_stage > 0 then
        (let new_stage = (if windowsize s > 1 then curr_stage - curr_stage mod windowsize s else curr_stage - 1)
         in if new_stage = 0 then 1 else new_stage)
      else curr_stage)"

definition was_error :: "session \<Rightarrow> bool" where
  "was_error s \<longleftrightarrow> error_code s > 0 \<or> error_message s \<noteq> []"

definition set_error_if_first :: "session \<Rightarrow> u16 \<Rightarrow> string \<Rightarrow> session" where
  "set_error_if_first s e_cod e_msg =
     (if \<not> was_error s then s\<lparr>error_code := e_cod, error_message := e_msg\<rparr> else s)"

text \<open>The callback the data manager was given.\<close>

definition dm_callback :: "session \<Rightarrow> dm_error \<Rightarrow> session" where
  "dm_callback s err = (case err of None \<Rightarrow> s | Some (e_cod, e_msg) \<Rightarrow> set_error_if_first s e_cod e_msg)"

section \<open>Preparation\<close>

definition prepare :: "session \<Rightarrow> addr \<Rightarrow> buf \<Rightarrow> nat \<Rightarrow> (bool \<times> session) res" where
  "prepare s remote_addr pkt_data pkt_data_size =
     (let s1 = s\<lparr>my_addr := snd (set_port (server_addr (sess_settings s)) (Port_int 0)), cl_addr := remote_addr\<rparr>
      in case buffer_parse pkt_data pkt_data_size of
           Inl e \<Rightarrow> Inl e
         | Inr (ret, o') \<Rightarrow> Inr (ret, s1\<lparr>opts := o'\<rparr>))"

datatype rx_result = Rx_errno int | Rx_pkt "byte list" "byte list"

record env =
  e_time :: int
  e_rx :: rx_result
  e_sendto :: int
  e_dev :: bool
  e_socket :: int
  e_bind :: int

text \<open>\<open>init\<close>: it returns true also when the data manager failed; then the error is set.\<close>

definition sess_init :: "env \<Rightarrow> filesys \<Rightarrow> session \<Rightarrow> (bool \<times> session \<times> filesys) res" where
  "sess_init e fs s =
     (let s1 = s\<lparr>sock := e_socket e\<rparr>
      in if e_socket e < 0 \<or> e_bind e = - 1 then Inr (False, s1, fs)
         else
           (case dm_init fs (sess_settings s1) dmf_new (opts s1) of
              Inl x \<Rightarrow> Inl x
            | Inr (init_stream, err, d, fs') \<Rightarrow>
                (let s2 = dm_callback (s1\<lparr>file_man := Some d\<rparr>) err;
                     s3 = (if init_stream then s2
                           else set_error_if_first s2 0 ''Unknown stream initialize error; break session'')
                 in Inr (True, s3, fs'))))"

section \<open>Packets\<close>

text \<open>A \<open>push_data\<close> whose result is ignored.\<close>

definition push_ign :: "smbufex \<Rightarrow> push_arg list \<Rightarrow> smbufex res" where
  "push_ign b args = (case push_data b args of Inl e \<Rightarrow> Inl e | Inr (_, b') \<Rightarrow> Inr b')"

text \<open>One option of the option reply: its name and its value, if it was set.\<close>

definition push_option :: "bool \<Rightarrow> string \<Rightarrow> int \<Rightarrow> smbufex \<Rightarrow> smbufex res" where
  "push_option was_set nm v b =
     (if was_set then
        (case push_ign b [PStr nm] of
           Inl e \<Rightarrow> Inl e
         | Inr b1 \<Rightarrow> push_ign b1 [PStr (int_str v)])
      else Inr b)"

definition construct_opt_reply :: "session \<Rightarrow> smbufex \<Rightarrow> smbufex res" where
  "construct_opt_reply s b =
     (let o' = opts s
      in case push_ign (buf_clear b) [PU16 6] of
           Inl e \<Rightarrow> Inl e
         | Inr b1 \<Rightarrow>
      (case push_option (was_set_blksize o') ''blksize'' (blksize o') b1 of
           Inl e \<Rightarrow> Inl e
         | Inr b2 \<Rightarrow>
      (case push_option (was_set_timeout o') ''timeout'' (timeout o') b2 of
           Inl e \<Rightarrow> Inl e
         | Inr b3 \<Rightarrow>
      (case push_option (was_set_tsize o') ''tsize'' (tsize o') b3 of
           Inl e \<Rightarrow> Inl e
         | Inr b4 \<Rightarrow>
      (case push_option (was_set_windowsize o') ''windowsize'' (windowsize_opt o') b4 of
           Inl e \<Rightarrow> Inl e
         | Inr b5 \<Rightarrow> Inr (if data_size b5 < 4 then buf_clear b5 else b5))))))"

definition construct_error :: "session \<Rightarrow> smbufex \<Rightarrow> (session \<times> smbufex) res" where
  "construct_error s b =
     (let s1 = (if was_error s then s else s\<lparr>error_code := 0, error_message := ''Undefined error''\<rparr>)
      in case push_ign (buf_clear b) [PU16 5, PU16 (error_code s1), PStr (error_message s1)] of
           Inl e \<Rightarrow> Inl e
         | Inr b' \<Rightarrow> Inr (s1, b'))"

text \<open>The position of the current block in the file.\<close>

definition blk_pos :: "session \<Rightarrow> nat" where
  "blk_pos s = sz_mul (sz_sub (stage s) 1) (unat (block_size s))"

text \<open>
  \<open>construct_data\<close>: the range given to \<open>read\<close> starts after the header and is as long as a block; a
  range that ends behind the buffer is undefined.
\<close>

definition construct_data :: "session \<Rightarrow> smbufex \<Rightarrow> (session \<times> smbufex) res" where
  "construct_data s b =
     (case push_ign (buf_clear b) [PU16 3, PU16 (blk_num_local s)] of
        Inl e \<Rightarrow> Inl e
      | Inr b1 \<Rightarrow>
          (case file_man s of
             None \<Rightarrow> Inl Undefined
           | Some d \<Rightarrow>
               if data_size b1 + unat (block_size s) > length (sb_buf b1) then Inl Undefined
               else
                 (case dm_read d (unat (block_size s)) (blk_pos s) of
                    Inl e \<Rightarrow> Inl e
                  | Inr (ret, got, err, d') \<Rightarrow>
                      (let s1 = dm_callback (s\<lparr>file_man := Some d'\<rparr>) err;
                           b2 = b1\<lparr>sb_buf := put_at (sb_buf b1) (data_size b1) got\<rparr>
                       in if ret \<ge> 0 then
                            (case data_size_reset b2 (sz_add (data_size b2) (nat ret)) of
                               Inl e \<Rightarrow> Inl e
                             | Inr b3 \<Rightarrow> Inr (s1, b3))
                          else Inr (set_error_if_first s1 0 ''Failed prepare data to send'', b2)))))"

definition construct_ack :: "session \<Rightarrow> smbufex \<Rightarrow> smbufex res" where
  "construct_ack s b = push_ign (buf_clear b) [PU16 4, PU16 (blk_num_local s)]"

text \<open>\<open>transmit_no_wait\<close>: the result, and the packet that is handed to \<open>sendto\<close>.\<close>

definition transmit_no_wait :: "session \<Rightarrow> smbufex \<Rightarrow> int \<Rightarrow> bool \<times> byte list list" where
  "transmit_no_wait s b tx_result_size =
     (let ret = (data_size b > 0 \<and> tx_result_size = int (data_size b))
      in (ret \<and> \<not> was_error s, if data_size b > 0 then [content b] else []))"

section \<open>Receiving\<close>

abbreviation (input) EAGAIN :: int where "EAGAIN \<equiv> 11"

text \<open>The address \<open>recvfrom\<close> stores into a new \<open>Addr\<close>.\<close>

definition rx_client :: "byte list \<Rightarrow> byte list" where
  "rx_client from = put_at (a_bytes addr_new) 0 (take (length (a_bytes addr_new)) from)"

text \<open>A 16 bit field of a packet; 0 if the packet has less than four bytes.\<close>

definition rx_field :: "buf \<Rightarrow> nat \<Rightarrow> nat \<Rightarrow> u16 res" where
  "rx_field b rx_pkt_size offset = (if rx_pkt_size > 3 then get_be b offset else Inr 0)"

text \<open>The tests both branches make on the block number, and the change of the stage.\<close>

definition rx_stage :: "session \<Rightarrow> u16 \<Rightarrow> int" where
  "rx_stage s rx_blk = ssize_of (stage s) + int (unat rx_blk) - int (unat (blk_num_local s))"

definition rx_stage_ok :: "session \<Rightarrow> u16 \<Rightarrow> bool" where
  "rx_stage_ok s rx_blk \<longleftrightarrow> \<not> rx_stage s rx_blk < 0 \<and> \<not> rx_stage s rx_blk > ssize_of (sz_add (stage s) 1)"

definition rx_set_stage :: "session \<Rightarrow> u16 \<Rightarrow> session" where
  "rx_set_stage s rx_blk =
     (if blk_num_local s \<noteq> rx_blk then s\<lparr>stage := size_of (rx_stage s rx_blk)\<rparr> else s)"

definition receive_data :: "env \<Rightarrow> session \<Rightarrow> buf \<Rightarrow> nat \<Rightarrow> u16 \<Rightarrow> (triple_result \<times> session) res" where
  "receive_data e s b rx_pkt_size rx_blk =
     (if \<not> rx_stage_ok s rx_blk then
        Inr (tr_fail, set_error_if_first s 0 ''Error received number data block'')
      else
        (let s1 = rx_set_stage s rx_blk
         in case file_man s1 of
              None \<Rightarrow> Inl Undefined
            | Some d \<Rightarrow>
                (case dm_write d (take (rx_pkt_size - 4) (drop 4 b)) (blk_pos s1) (e_dev e) of
                   Inl x \<Rightarrow> Inl x
                 | Inr (stored_data_size, err, d') \<Rightarrow>
                     (let s2 = dm_callback (s1\<lparr>file_man := Some d'\<rparr>) err
                      in if stored_data_size < 0
                         then Inr (tr_fail, set_error_if_first s2 0 ''Error when try to store data'')
                         else Inr (tr_ok, s2)))))"

definition receive_ack :: "session \<Rightarrow> u16 \<Rightarrow> triple_result \<times> session" where
  "receive_ack s rx_blk =
     (if \<not> rx_stage_ok s rx_blk then
        (tr_fail, set_error_if_first s 0 ''Error received number ack block'')
      else (tr_ok, rx_set_stage s rx_blk))"

text \<open>
  \<open>receive_no_wait\<close>. For an ERROR packet the text of the message is read for the log, which could
  throw; the packet is then ignored.
\<close>

definition receive_no_wait :: "env \<Rightarrow> session \<Rightarrow> smbufex \<Rightarrow> (triple_result \<times> session \<times> smbufex) res" where
  "receive_no_wait e s b =
     (case e_rx e of
        Rx_errno errno \<Rightarrow> Inr (if errno = EAGAIN then tr_nop else tr_fail, s, b)
      | Rx_pkt pkt from \<Rightarrow>
          (let data = take (length (sb_buf b)) pkt;
               rx_pkt_size = length data
           in case data_size_reset (b\<lparr>sb_buf := put_at (sb_buf b) 0 data\<rparr>) rx_pkt_size of
                Inl x \<Rightarrow> Inl x
              | Inr b1 \<Rightarrow>
          (case rx_field (sb_buf b1) rx_pkt_size 0 of
             Inl x \<Rightarrow> Inl x
           | Inr rx_op \<Rightarrow>
          (case rx_field (sb_buf b1) rx_pkt_size 2 of
             Inl x \<Rightarrow> Inl x
           | Inr rx_blk \<Rightarrow>
          (case (if rx_op = 5 then get_string (sb_buf b1) 4 0 else Inr []) of
             Inl x \<Rightarrow> Inl x
           | Inr _ \<Rightarrow>
               if rx_client from \<noteq> a_bytes (cl_addr s) then Inr (tr_nop, s, b1)
               else if rx_op = 3 \<and> stat s = data_rx then
                 (case receive_data e s (sb_buf b1) rx_pkt_size rx_blk of
                    Inl x \<Rightarrow> Inl x
                  | Inr (r, s') \<Rightarrow> Inr (r, s', b1))
               else if rx_op = 4 \<and> stat s = ack_rx then
                 (case receive_ack s rx_blk of (r, s') \<Rightarrow> Inr (r, s', b1))
               else Inr (tr_nop, s, b1))))))"

section \<open>The main loop\<close>

record run_state =
  sess :: session
  last_blk_processed :: bool
  retr_count :: u16
  local_buf :: smbufex
  oper_time :: int
  world :: filesys
  sent :: "byte list list"

definition run_start :: "filesys \<Rightarrow> session \<Rightarrow> run_state" where
  "run_start fs s =
     \<lparr>sess = s\<lparr>stage := 0\<rparr>, last_blk_processed = False, retr_count = 0,
      local_buf = smbufex_new 0xFFFF True True, oper_time = 0, world = fs, sent = []\<rparr>"

text \<open>\<open>timeout_pass\<close>: the sum is of type \<open>int\<close>, its overflow is undefined.\<close>

definition timeout_pass :: "env \<Rightarrow> run_state \<Rightarrow> bool res" where
  "timeout_pass e r =
     (let t = timeout (opts (sess r)) + 1
      in if t \<ge> 2 ^ 31 then Inl Undefined else Inr (e_time e - oper_time r < t))"

definition timeout_reset :: "env \<Rightarrow> run_state \<Rightarrow> run_state" where
  "timeout_reset e r = r\<lparr>oper_time := e_time e\<rparr>"

text \<open>\<open>switch_to\<close> with its result ignored, changes of the stage, and sending the buffer.\<close>

definition goto_state :: "state \<Rightarrow> run_state \<Rightarrow> run_state" where
  "goto_state n r = r\<lparr>sess := snd (switch_to (sess r) n)\<rparr>"

definition set_stage :: "nat \<Rightarrow> run_state \<Rightarrow> run_state" where
  "set_stage n r = r\<lparr>sess := (sess r)\<lparr>stage := n\<rparr>\<rparr>"

definition inc_stage :: "run_state \<Rightarrow> run_state" where
  "inc_stage r = set_stage (sz_add (stage (sess r)) 1) r"

definition send_buf :: "env \<Rightarrow> run_state \<Rightarrow> run_state" where
  "send_buf e r = r\<lparr>sent := sent r @ snd (transmit_no_wait (sess r) (local_buf r) (e_sendto e))\<rparr>"

definition full_data_size :: "session \<Rightarrow> nat" where
  "full_data_size s = unat (block_size s) + 4"

subsection \<open>One branch of the switch each\<close>

definition step_need_init :: "env \<Rightarrow> run_state \<Rightarrow> run_state res" where
  "step_need_init e r =
     (case sess_init e (world r) (sess r) of
        Inl x \<Rightarrow> Inl x
      | Inr (ret, s, fs) \<Rightarrow>
          (let r1 = r\<lparr>sess := s, world := fs\<rparr>
           in Inr (if ret then
                     (if was_error s then goto_state error_and_stop r1 else goto_state ack_options r1)
                   else goto_state finish r1)))"

definition step_error_and_stop :: "env \<Rightarrow> run_state \<Rightarrow> run_state res" where
  "step_error_and_stop e r =
     (if was_error (sess r) then
        (case construct_error (sess r) (local_buf r) of
           Inl x \<Rightarrow> Inl x
         | Inr (s, b) \<Rightarrow> Inr (goto_state finish (send_buf e (r\<lparr>sess := s, local_buf := b\<rparr>))))
      else Inr (goto_state finish r))"

definition step_ack_options :: "env \<Rightarrow> run_state \<Rightarrow> run_state res" where
  "step_ack_options e r =
     (let any = was_set_any (opts (sess r))
      in case (if any then construct_opt_reply (sess r) (local_buf r) else Inr (local_buf r)) of
           Inl x \<Rightarrow> Inl x
         | Inr b \<Rightarrow>
             (let r1 = r\<lparr>local_buf := b\<rparr>;
                  r2 = timeout_reset e (if any then send_buf e r1 else r1)
              in Inr (case o_request_type (opts (sess r)) of
                        srv_unknown \<Rightarrow> goto_state error_and_stop r2
                      | srv_read \<Rightarrow>
                          (if any then set_stage 0 (goto_state ack_rx r2)
                           else set_stage 1 (goto_state data_tx r2))
                      | srv_write \<Rightarrow>
                          (if any then set_stage 1 (goto_state data_rx r2)
                           else goto_state ack_tx (set_stage 0 r2)))))"

definition step_data_tx :: "env \<Rightarrow> run_state \<Rightarrow> run_state res" where
  "step_data_tx e r =
     (case construct_data (sess r) (local_buf r) of
        Inl x \<Rightarrow> Inl x
      | Inr (s, b) \<Rightarrow>
          (let r1 = r\<lparr>sess := s, local_buf := b\<rparr>
           in Inr (if \<not> was_error s \<and> data_size b > 0 then
                     (let r2 = (send_buf e r1)\<lparr>last_blk_processed := (data_size b \<noteq> full_data_size s)\<rparr>
                      in if is_window_close s (stage s) \<or> last_blk_processed r2
                         then goto_state ack_rx (timeout_reset e r2) else r2)
                   else goto_state error_and_stop r1)))"

text \<open>The timeout branch that \<open>data_rx\<close> and \<open>ack_rx\<close> share.\<close>

definition poll_timeout :: "env \<Rightarrow> run_state \<Rightarrow> run_state res" where
  "poll_timeout e r =
     (case timeout_pass e r of
        Inl x \<Rightarrow> Inl x
      | Inr in_time \<Rightarrow> Inr (if \<not> in_time then goto_state retransmit r else r))"

definition step_data_rx :: "env \<Rightarrow> run_state \<Rightarrow> run_state res" where
  "step_data_rx e r =
     (case receive_no_wait e (sess r) (local_buf r) of
        Inl x \<Rightarrow> Inl x
      | Inr (res, s, b) \<Rightarrow>
          (let r1 = r\<lparr>sess := s, local_buf := b\<rparr>
           in case res of
                tr_nop \<Rightarrow> poll_timeout e r1
              | tr_ok \<Rightarrow>
                  (let r2 = r1\<lparr>last_blk_processed := (data_size b \<noteq> full_data_size s)\<rparr>
                   in Inr (if is_window_close s (stage s) then goto_state ack_tx r2
                           else timeout_reset e (inc_stage r2)))
              | tr_fail \<Rightarrow> Inr (goto_state error_and_stop r1)))"

definition step_ack_tx :: "env \<Rightarrow> run_state \<Rightarrow> run_state res" where
  "step_ack_tx e r =
     (case construct_ack (sess r) (local_buf r) of
        Inl x \<Rightarrow> Inl x
      | Inr b \<Rightarrow>
          (let r1 = inc_stage (send_buf e (r\<lparr>local_buf := b\<rparr>))
           in Inr (if last_blk_processed r then goto_state finish r1
                   else timeout_reset e (goto_state data_rx r1))))"

definition step_ack_rx :: "env \<Rightarrow> run_state \<Rightarrow> run_state res" where
  "step_ack_rx e r =
     (case receive_no_wait e (sess r) (local_buf r) of
        Inl x \<Rightarrow> Inl x
      | Inr (res, s, b) \<Rightarrow>
          (let r1 = r\<lparr>sess := s, local_buf := b\<rparr>
           in case res of
                tr_nop \<Rightarrow> poll_timeout e r1
              | tr_ok \<Rightarrow>
                  Inr (if last_blk_processed r then goto_state finish r1
                       else timeout_reset e (inc_stage (goto_state data_tx r1)))
              | tr_fail \<Rightarrow> Inr (goto_state error_and_stop r1)))"

definition step_retransmit :: "env \<Rightarrow> run_state \<Rightarrow> run_state res" where
  "step_retransmit e r =
     (let r1 = r\<lparr>retr_count := retr_count r + 1\<rparr>
      in Inr (if retr_count r1 > get_retransmit_count (sess_settings (sess r)) then goto_state error_and_stop r1
              else
                timeout_reset e
                  (case o_request_type (opts (sess r)) of
                     srv_unknown \<Rightarrow> goto_state error_and_stop r1
                   | srv_read \<Rightarrow> goto_state data_tx r1
                   | srv_write \<Rightarrow> goto_state ack_tx r1)))"

definition run_step :: "env \<Rightarrow> run_state \<Rightarrow> run_state res" where
  "run_step e r =
     (case stat (sess r) of
        need_init \<Rightarrow> step_need_init e r
      | error_and_stop \<Rightarrow> step_error_and_stop e r
      | ack_options \<Rightarrow> step_ack_options e r
      | data_tx \<Rightarrow> step_data_tx e r
      | data_rx \<Rightarrow> step_data_rx e r
      | ack_tx \<Rightarrow> step_ack_tx e r
      | ack_rx \<Rightarrow> step_ack_rx e r
      | retransmit \<Rightarrow> step_retransmit e r
      | finish \<Rightarrow> Inr r)"

text \<open>The loop over the inputs of its iterations; it stops when the session is finished.\<close>

fun run_loop :: "env list \<Rightarrow> run_state \<Rightarrow> run_state res" where
  "run_loop [] r = Inr r"
| "run_loop (e # es) r =
     (if is_finished (sess r) then Inr r
      else case run_step e r of
        Inl x \<Rightarrow> Inl x
      | Inr r' \<Rightarrow> run_loop es r')"

text \<open>\<open>socket_close\<close>: the call; the field keeps the descriptor.\<close>

definition socket_close :: "session \<Rightarrow> fs_call" where
  "socket_close s = Close_fd (sock s)"

text \<open>The end of \<open>run\<close>, after the loop.\<close>

definition run_end :: "bool \<Rightarrow> run_state \<Rightarrow> (run_state \<times> fs_call list) res" where
  "run_end dev_ok r =
     (case file_man (sess r) of
        None \<Rightarrow> Inl Undefined
      | Some d \<Rightarrow>
          (case dm_close (world r) d dev_ok of
             Inl x \<Rightarrow> Inl x
           | Inr (d', fs, calls) \<Rightarrow> Inr (r\<lparr>sess := (sess r)\<lparr>file_man := Some d'\<rparr>, world := fs\<rparr>, socket_close (sess r) # calls)))"

text \<open>\<open>run\<close>: \<open>None\<close> if the loop has not finished with the given iterations.\<close>

definition run :: "env list \<Rightarrow> bool \<Rightarrow> filesys \<Rightarrow> session \<Rightarrow> (run_state \<times> fs_call list) option res" where
  "run es dev_ok fs s =
     (case run_loop es (run_start fs s) of
        Inl x \<Rightarrow> Inl x
      | Inr r \<Rightarrow>
          if is_finished (sess r) then
            (case run_end dev_ok r of Inl x \<Rightarrow> Inl x | Inr rc \<Rightarrow> Inr (Some rc))
          else Inr None)"

end
