(* ===== verification/SessionInv.thy ===== *)
theory SessionInv
  imports Session
begin

text \<open>
  Invariants of a session. The first part says what the packets look like that a session builds in
  its buffer; then the loop is seen as a step relation over arbitrary inputs, with what every step
  keeps: the buffer, the first error, the transitions of the state machine, the bound on
  retransmissions. The last part shows that no input from the network makes a read session throw.
\<close>

section \<open>The packet buffer\<close>

definition sbuf_ok :: "smbufex \<Rightarrow> bool" where
  "sbuf_ok b \<longleftrightarrow> smbufex_inv b \<and> length (sb_buf b) = 0xFFFF \<and> val_int_bigendian b \<and> val_str_zeroend b"

lemma sbuf_ok_new: "sbuf_ok (smbufex_new 0xFFFF True True)"
  using smbufex_inv_new [of "0xFFFF" True True] by (simp add: sbuf_ok_def smbufex_new_def)

lemma sbuf_ok_clear: "sbuf_ok b \<Longrightarrow> sbuf_ok (buf_clear b)"
  using smbufex_inv_clear [of b] by (simp add: sbuf_ok_def buf_clear_def)

lemma sbuf_ok_appended: "sbuf_ok b \<Longrightarrow> length bs \<le> room b \<Longrightarrow> sbuf_ok (appended b bs)"
  by (simp add: sbuf_ok_def appended_inv)

lemma sbuf_ok_inv: "sbuf_ok b \<Longrightarrow> smbufex_inv b"
  by (simp add: sbuf_ok_def)

lemma sbuf_ok_push_data:
  "sbuf_ok b \<Longrightarrow> \<forall>a \<in> set args. arg_ok a \<Longrightarrow> push_data b args = Inr (r, b') \<Longrightarrow> sbuf_ok b'"
proof (induction b args arbitrary: r b' rule: push_data.induct)
  case (2 b x xs)
  obtain r1 b1 where 1: "push_item b x = Inr (r1, b1)" using "2.prems"(3) by (cases "push_item b x") auto
  then obtain r2 where 2: "push_data b1 xs = Inr (r2, b')" using "2.prems"(3) by (cases "push_data b1 xs") auto
  have "sbuf_ok b1"
    using push_item_outcome [OF sbuf_ok_inv _ 1] "2.prems" sbuf_ok_appended by auto
  then show ?case using "2.IH" 1 2 "2.prems" by auto
qed simp

lemma sbuf_ok_push_ign:
  "sbuf_ok b \<Longrightarrow> \<forall>a \<in> set args. arg_ok a \<Longrightarrow> push_ign b args = Inr b' \<Longrightarrow> sbuf_ok b'"
  by (auto simp: push_ign_def split: sum.splits dest: sbuf_ok_push_data)

text \<open>Pushes that fit are done, and the bytes are those of the arguments.\<close>

lemma push_data_fit:
  "smbufex_inv b \<Longrightarrow> \<forall>a \<in> set args. arg_ok a \<Longrightarrow> (\<Sum>a\<leftarrow>args. arg_need a) \<le> room b \<Longrightarrow>
     push_data b args = Inr (True, appended b (concat (map (arg_bytes b) args)))"
proof (induction args arbitrary: b)
  case Nil
  then show ?case by (simp add: appended_def)
next
  case (Cons a args)
  then have a: "push_item b a = Inr (True, appended b (arg_bytes b a))" using push_item_fits by simp
  have len: "length (arg_bytes b a) \<le> arg_need a" by (rule length_arg_bytes)
  then have "push_data (appended b (arg_bytes b a)) args =
      Inr (True, appended (appended b (arg_bytes b a)) (concat (map (arg_bytes b) args)))"
    using Cons appended_inv [of b "arg_bytes b a"] by simp
  then show ?case using Cons.prems(1) a by (simp add: appended_appended)
qed

lemma push_ign_fit:
  assumes "sbuf_ok b" "\<forall>a \<in> set args. arg_ok a" "(\<Sum>a\<leftarrow>args. arg_need a) \<le> room b"
  shows "push_ign b args = Inr (appended b (concat (map (arg_bytes b) args)))"
  using push_data_fit [OF sbuf_ok_inv [OF assms(1)] assms(2,3)] by (simp add: push_ign_def)

lemma room_clear: "sbuf_ok b \<Longrightarrow> room (buf_clear b) = 0xFFFF"
  by (simp add: sbuf_ok_def room_def buf_clear_def)

section \<open>The packets\<close>

definition u16_bytes :: "u16 \<Rightarrow> byte list" where
  "u16_bytes v = be_bytes 2 (unat v)"

definition data_pkt :: "u16 \<Rightarrow> byte list \<Rightarrow> byte list" where
  "data_pkt blk bs = u16_bytes 3 @ u16_bytes blk @ bs"

definition ack_pkt :: "u16 \<Rightarrow> byte list" where
  "ack_pkt blk = u16_bytes 4 @ u16_bytes blk"

definition error_pkt :: "u16 \<Rightarrow> string \<Rightarrow> byte list" where
  "error_pkt code msg = u16_bytes 5 @ u16_bytes code @ until_zero msg @ [NUL]"

definition opt_bytes :: "bool \<Rightarrow> string \<Rightarrow> int \<Rightarrow> byte list" where
  "opt_bytes was_set nm v = (if was_set then nm @ [NUL] @ int_str v @ [NUL] else [])"

definition oack_pkt :: "options \<Rightarrow> byte list" where
  "oack_pkt o' = u16_bytes 6 @ opt_bytes (was_set_blksize o') ''blksize'' (blksize o') @
     opt_bytes (was_set_timeout o') ''timeout'' (timeout o') @
     opt_bytes (was_set_tsize o') ''tsize'' (tsize o') @
     opt_bytes (was_set_windowsize o') ''windowsize'' (windowsize_opt o')"

lemma length_u16_bytes [simp]: "length (u16_bytes v) = 2"
  by (simp add: u16_bytes_def)

lemma order_bytes_ok: "sbuf_ok b \<Longrightarrow> order_bytes b = be_bytes"
  by (simp add: sbuf_ok_def order_bytes_def)

lemma sb_buf_clear [simp]: "sb_buf (buf_clear b) = sb_buf b" "data_size (buf_clear b) = 0"
  "val_str_zeroend (buf_clear b) = val_str_zeroend b" "content (buf_clear b) = []"
  by (simp_all add: buf_clear_def content_def)

text \<open>The header of DATA and ACK packets.\<close>

lemma push_header:
  assumes "sbuf_ok b"
  shows "push_ign (buf_clear b) [PU16 x, PU16 y] =
    Inr (b\<lparr>sb_buf := put_at (sb_buf b) 0 (u16_bytes x @ u16_bytes y), data_size := 4\<rparr>)"
proof -
  have "push_ign (buf_clear b) [PU16 x, PU16 y] = Inr (appended (buf_clear b) (u16_bytes x @ u16_bytes y))"
    using push_ign_fit [OF sbuf_ok_clear [OF assms], of "[PU16 x, PU16 y]"] room_clear [OF assms]
    by (simp add: order_bytes_ok [OF sbuf_ok_clear [OF assms]] u16_bytes_def)
  then show ?thesis by (simp add: appended_def) (simp add: buf_clear_def)
qed

lemma construct_ack_eq:
  assumes "sbuf_ok b"
  obtains b' where "construct_ack s b = Inr b'" "sbuf_ok b'" "content b' = ack_pkt (blk_num_local s)"
    "data_size b' = 4"
proof
  let ?b = "b\<lparr>sb_buf := put_at (sb_buf b) 0 (u16_bytes 4 @ u16_bytes (blk_num_local s)), data_size := 4\<rparr>"
  show "construct_ack s b = Inr ?b" using push_header [OF assms] by (simp add: construct_ack_def)
  show "sbuf_ok ?b" using assms by (simp add: sbuf_ok_def smbufex_inv_def vec_ok_def)
  have "take (0 + length (u16_bytes 4 @ u16_bytes (blk_num_local s))) (put_at (sb_buf b) 0 (u16_bytes 4 @ u16_bytes (blk_num_local s)))
      = take 0 (sb_buf b) @ u16_bytes 4 @ u16_bytes (blk_num_local s)"
    by (rule take_put_at) simp
  then show "content ?b = ack_pkt (blk_num_local s)" by (simp add: content_def ack_pkt_def)
qed simp

text \<open>
  \<open>construct_error\<close> sends the first error; a message of up to 65530 bytes fits.
\<close>

lemma construct_error_eq:
  assumes "sbuf_ok b" "was_error s" "length (error_message s) \<le> 65530"
  shows "construct_error s b = Inr (s, appended (buf_clear b) (error_pkt (error_code s) (error_message s)))"
proof -
  have v: "val_str_zeroend (buf_clear b)" using assms(1) by (simp add: sbuf_ok_def)
  have "push_ign (buf_clear b) [PU16 5, PU16 (error_code s), PStr (error_message s)] =
      Inr (appended (buf_clear b) (error_pkt (error_code s) (error_message s)))"
    using push_ign_fit [OF sbuf_ok_clear [OF assms(1)], of "[PU16 5, PU16 (error_code s), PStr (error_message s)]"]
      assms room_clear [OF assms(1)] v
    by (simp add: error_pkt_def u16_bytes_def order_bytes_ok [OF sbuf_ok_clear [OF assms(1)]])
  then show ?thesis using assms(2) by (simp add: construct_error_def)
qed

lemma error_pkt_sent:
  assumes "sbuf_ok b" "length m \<le> 65530"
  shows "content (appended (buf_clear b) (error_pkt c m)) = error_pkt c m"
    "sbuf_ok (appended (buf_clear b) (error_pkt c m))"
proof -
  have "length (error_pkt c m) \<le> room (buf_clear b)"
    using assms(2) length_until_zero [of m] by (simp add: error_pkt_def room_clear [OF assms(1)])
  then show "sbuf_ok (appended (buf_clear b) (error_pkt c m))"
    using sbuf_ok_appended sbuf_ok_clear assms(1) by blast
  show "content (appended (buf_clear b) (error_pkt c m)) = error_pkt c m"
    using content_appended [OF sbuf_ok_inv [OF sbuf_ok_clear [OF assms(1)]]]
    by simp
qed

subsection \<open>The option reply\<close>

text \<open>Option values are of type \<open>int\<close>.\<close>

definition opts_ok :: "options \<Rightarrow> bool" where
  "opts_ok o' \<longleftrightarrow> \<bar>blksize o'\<bar> < 2 ^ 31 \<and> \<bar>timeout o'\<bar> < 2 ^ 31 \<and> \<bar>tsize o'\<bar> < 2 ^ 31 \<and> \<bar>windowsize_opt o'\<bar> < 2 ^ 31"

lemma length_int_str: "\<bar>i\<bar> < 2 ^ 31 \<Longrightarrow> length (int_str i) \<le> 11"
proof -
  assume i: "\<bar>i\<bar> < 2 ^ 31"
  have "length (nat_str n) \<le> 10" if "n < 2 ^ 31" for n
    using length_nat_str [of n 9] that by simp
  moreover have "nat i < 2 ^ 31" "nat (- i) < 2 ^ 31" using i by (simp_all add: nat_less_iff)
  ultimately have "length (nat_str (nat i)) \<le> 10" "length (nat_str (nat (- i))) \<le> 10" by blast+
  then show ?thesis by (simp add: int_str_def)
qed

lemma push_option_eq:
  assumes "sbuf_ok b" "NUL \<notin> set nm" "length nm \<le> 10" "\<bar>v\<bar> < 2 ^ 31" "23 \<le> room b"
  shows "push_option w nm v b = Inr (appended b (opt_bytes w nm v))"
proof (cases w)
  case True
  have v: "val_str_zeroend b" using assms(1) by (simp add: sbuf_ok_def)
  let ?b1 = "appended b (nm @ [NUL])"
  have 1: "push_ign b [PStr nm] = Inr ?b1"
    using push_ign_fit [OF assms(1), of "[PStr nm]"] assms(2,3,5) v by simp
  have ok1: "sbuf_ok ?b1" "room ?b1 \<ge> 12"
    using assms sbuf_ok_appended appended_inv(3) [OF sbuf_ok_inv [OF assms(1)], of "nm @ [NUL]"] by auto
  have "push_ign ?b1 [PStr (int_str v)] = Inr (appended ?b1 (int_str v @ [NUL]))"
    using push_ign_fit [OF ok1(1), of "[PStr (int_str v)]"] ok1(2) length_int_str [OF assms(4)]
      int_str_no_NUL v by simp
  then show ?thesis
    using True 1 appended_appended [OF sbuf_ok_inv [OF assms(1)]] by (simp add: push_option_def opt_bytes_def)
next
  case False
  then show ?thesis by (simp add: push_option_def opt_bytes_def appended_def)
qed

lemma length_opt_bytes: "length nm \<le> 10 \<Longrightarrow> \<bar>v\<bar> < 2 ^ 31 \<Longrightarrow> length (opt_bytes w nm v) \<le> 23"
  using length_int_str [of v] by (simp add: opt_bytes_def)

lemma sbuf_appended_room:
  assumes "sbuf_ok b" "length bs \<le> 23" "n + 23 \<le> room b"
  shows "sbuf_ok (appended b bs)" "n \<le> room (appended b bs)"
  using assms sbuf_ok_appended [OF assms(1)] appended_inv(3) [OF sbuf_ok_inv [OF assms(1)], of bs] by auto

lemma construct_opt_reply_eq:
  assumes "sbuf_ok b" "opts_ok (opts s)" "was_set_any (opts s)"
  shows "construct_opt_reply s b = Inr (appended (buf_clear b) (oack_pkt (opts s)))"
    "sbuf_ok (appended (buf_clear b) (oack_pkt (opts s)))"
proof -
  let ?o = "opts s" let ?c = "buf_clear b"
  note okc = sbuf_ok_clear [OF assms(1)]
  define x1 where "x1 = opt_bytes (was_set_blksize ?o) ''blksize'' (blksize ?o)"
  define x2 where "x2 = opt_bytes (was_set_timeout ?o) ''timeout'' (timeout ?o)"
  define x3 where "x3 = opt_bytes (was_set_tsize ?o) ''tsize'' (tsize ?o)"
  define x4 where "x4 = opt_bytes (was_set_windowsize ?o) ''windowsize'' (windowsize_opt ?o)"
  define h where "h = u16_bytes 6"
  have v: "\<bar>blksize ?o\<bar> < 2 ^ 31" "\<bar>timeout ?o\<bar> < 2 ^ 31" "\<bar>tsize ?o\<bar> < 2 ^ 31" "\<bar>windowsize_opt ?o\<bar> < 2 ^ 31"
    using assms(2) by (auto simp: opts_ok_def)
  have l: "length x1 \<le> 23" "length x2 \<le> 23" "length x3 \<le> 23" "length x4 \<le> 23" "length h \<le> 23"
    unfolding x1_def x2_def x3_def x4_def h_def using v by (auto intro!: length_opt_bytes)
  have b0: "push_ign ?c [PU16 6] = Inr (appended ?c h)"
    using push_ign_fit [OF okc, of "[PU16 6]"] room_clear [OF assms(1)]
    by (simp add: order_bytes_ok [OF okc] u16_bytes_def h_def)
  note r0 = sbuf_appended_room [OF okc l(5), of 1000, unfolded room_clear [OF assms(1)], simplified]
  have b1: "push_option (was_set_blksize ?o) ''blksize'' (blksize ?o) (appended ?c h) = Inr (appended (appended ?c h) x1)"
    unfolding x1_def using r0 v by (intro push_option_eq) auto
  note r1 = sbuf_appended_room [OF r0(1) l(1), of 900, OF le_trans [OF _ r0(2)], simplified]
  have b2: "push_option (was_set_timeout ?o) ''timeout'' (timeout ?o) (appended (appended ?c h) x1) =
      Inr (appended (appended (appended ?c h) x1) x2)"
    unfolding x2_def using r1 v by (intro push_option_eq) auto
  note r2 = sbuf_appended_room [OF r1(1) l(2), of 800, OF le_trans [OF _ r1(2)], simplified]
  have b3: "push_option (was_set_tsize ?o) ''tsize'' (tsize ?o) (appended (appended (appended ?c h) x1) x2) =
      Inr (appended (appended (appended (appended ?c h) x1) x2) x3)"
    unfolding x3_def using r2 v by (intro push_option_eq) auto
  note r3 = sbuf_appended_room [OF r2(1) l(3), of 700, OF le_trans [OF _ r2(2)], simplified]
  have b4: "push_option (was_set_windowsize ?o) ''windowsize'' (windowsize_opt ?o) (appended (appended (appended (appended ?c h) x1) x2) x3) =
      Inr (appended (appended (appended (appended (appended ?c h) x1) x2) x3) x4)"
    unfolding x4_def using r3 v by (intro push_option_eq) auto
  note r4 = sbuf_appended_room [OF r3(1) l(4), of 600, OF le_trans [OF _ r3(2)], simplified]
  have eq: "appended (appended (appended (appended (appended ?c h) x1) x2) x3) x4 = appended ?c (oack_pkt ?o)"
    using r0(1) r1(1) r2(1) okc
    by (simp add: appended_appended sbuf_ok_inv oack_pkt_def x1_def x2_def x3_def x4_def h_def)
  have "length (oack_pkt ?o) \<ge> 4"
    using assms(3) by (auto simp: oack_pkt_def opt_bytes_def was_set_any_def)
  then have "\<not> data_size (appended ?c (oack_pkt ?o)) < 4" by simp
  then show "construct_opt_reply s b = Inr (appended ?c (oack_pkt ?o))"
    unfolding construct_opt_reply_def Let_def b0 by (simp add: b1 b2 b3 b4 eq)
  show "sbuf_ok (appended ?c (oack_pkt ?o))" using r4(1) eq by simp
qed

subsection \<open>Data packets\<close>

lemma dm_read_bounds:
  assumes "dm_read d n p = Inr (ret, got, err, d')"
  shows "ret \<le> int n" "length got \<le> n" "request_type d' = request_type d"
    "err = None \<or> (\<exists>m. err = Some (0, m) \<and> length m \<le> 1024)"
  using assms
  by (auto simp: dm_read_def ifs_read_def dm_set_error_def Let_def split: if_splits prod.splits)

text \<open>
  The buffer after \<open>construct_data\<close>: the header, the bytes read, and behind them what was in the
  buffer before. The packet is the part of it that \<open>read\<close> claims to have filled.
\<close>

definition data_buf :: "session \<Rightarrow> smbufex \<Rightarrow> byte list \<Rightarrow> buf" where
  "data_buf s b got = put_at (put_at (sb_buf b) 0 (u16_bytes 3 @ u16_bytes (blk_num_local s))) 4 got"

lemma construct_data_eq:
  assumes "sbuf_ok b" "file_man s = Some d" "unat (block_size s) \<le> 65531"
    "dm_read d (unat (block_size s)) (blk_pos s) = Inr (ret, got, err, d')"
  shows "construct_data s b =
    (let s1 = dm_callback (s\<lparr>file_man := Some d'\<rparr>) err
     in if ret \<ge> 0 then Inr (s1, b\<lparr>sb_buf := data_buf s b got, data_size := 4 + nat ret\<rparr>)
        else Inr (set_error_if_first s1 0 ''Failed prepare data to send'',
                  b\<lparr>sb_buf := data_buf s b got, data_size := 4\<rparr>))"
proof -
  note bd = dm_read_bounds [OF assms(4)]
  have len: "length (sb_buf b) = 65535" using assms(1) by (simp add: sbuf_ok_def)
  have "data_size_reset (b\<lparr>data_size := 4, sb_buf := data_buf s b got\<rparr>) (sz_add 4 (nat ret)) =
      Inr (b\<lparr>sb_buf := data_buf s b got, data_size := 4 + nat ret\<rparr>)" if "ret \<ge> 0"
  proof -
    have "nat ret \<le> 65531" using bd(1) assms(3) that by linarith
    then show ?thesis
      using len bd(2) assms(3) by (simp add: data_size_reset_def data_buf_def sz_add_exact)
  qed
  then show ?thesis
    using assms len
    by (simp add: construct_data_def push_header [OF assms(1)] data_buf_def Let_def)
qed

lemma sbuf_ok_data_buf:
  assumes "sbuf_ok b" "length got \<le> 65531" "n \<le> 65535"
  shows "sbuf_ok (b\<lparr>sb_buf := data_buf s b got, data_size := n\<rparr>)"
  using assms by (simp add: sbuf_ok_def smbufex_inv_def vec_ok_def data_buf_def)

lemma content_data_buf:
  assumes "sbuf_ok b"
  shows "content (b\<lparr>sb_buf := data_buf s b got, data_size := 4 + length got\<rparr>) = data_pkt (blk_num_local s) got"
proof -
  let ?h = "u16_bytes 3 @ u16_bytes (blk_num_local s)"
  have len: "length (sb_buf b) = 65535" using assms by (simp add: sbuf_ok_def)
  have "take (4 + length got) (put_at (put_at (sb_buf b) 0 ?h) 4 got) = take 4 (put_at (sb_buf b) 0 ?h) @ got"
    using len by (intro take_put_at) simp
  also have "take 4 (put_at (sb_buf b) 0 ?h) = ?h"
    using take_put_at [of 0 "sb_buf b" ?h] by simp
  finally show ?thesis by (simp add: content_def data_buf_def data_pkt_def)
qed

section \<open>What a step keeps\<close>

text \<open>
  The invariant of the loop: the buffer keeps its size and flags, the option values are \<open>int\<close>s, the
  error texts are short (those of the system by assumption on the file system), and a session that
  is under way has a data manager.
\<close>

definition what_ok :: "filesys \<Rightarrow> bool" where
  "what_ok fs \<longleftrightarrow> (\<forall>p. length (fs_what fs p) \<le> 1024)"

definition under_way :: "state \<Rightarrow> bool" where
  "under_way st \<longleftrightarrow> st \<noteq> need_init \<and> st \<noteq> finish"

definition run_inv :: "run_state \<Rightarrow> bool" where
  "run_inv r \<longleftrightarrow> sbuf_ok (local_buf r) \<and> opts_ok (opts (sess r)) \<and> what_ok (world r) \<and>
     length (error_message (sess r)) \<le> 1024 \<and> (under_way (stat (sess r)) \<longrightarrow> file_man (sess r) \<noteq> None)"

lemma run_inv_start:
  assumes "what_ok fs" "opts_ok (opts s)" "stat s = need_init" "length (error_message s) \<le> 1024"
  shows "run_inv (run_start fs s)"
  using assms sbuf_ok_new by (simp add: run_inv_def run_start_def under_way_def)

lemma switch_to_stat: "stat (snd (switch_to s n)) \<in> {n, finish}"
  by (simp add: switch_to_def Let_def)

lemma switch_to_frame [simp]:
  "opts (snd (switch_to s n)) = opts s" "file_man (snd (switch_to s n)) = file_man s"
  "error_message (snd (switch_to s n)) = error_message s" "error_code (snd (switch_to s n)) = error_code s"
  "stage (snd (switch_to s n)) = stage s" "sess_settings (snd (switch_to s n)) = sess_settings s"
  "cl_addr (snd (switch_to s n)) = cl_addr s"
  by (simp_all add: switch_to_def Let_def)

lemma goto_state_frame [simp]:
  "local_buf (goto_state n r) = local_buf r" "world (goto_state n r) = world r"
  "last_blk_processed (goto_state n r) = last_blk_processed r" "retr_count (goto_state n r) = retr_count r"
  "sent (goto_state n r) = sent r" "oper_time (goto_state n r) = oper_time r"
  "opts (sess (goto_state n r)) = opts (sess r)" "file_man (sess (goto_state n r)) = file_man (sess r)"
  "error_message (sess (goto_state n r)) = error_message (sess r)"
  "error_code (sess (goto_state n r)) = error_code (sess r)"
  "stage (sess (goto_state n r)) = stage (sess r)"
  "sess_settings (sess (goto_state n r)) = sess_settings (sess r)"
  "cl_addr (sess (goto_state n r)) = cl_addr (sess r)"
  by (simp_all add: goto_state_def)

lemma goto_state_stat:
  "stat (sess (goto_state n r)) = (if stat (sess r) = n \<or> allowed (stat (sess r)) n then n else finish)"
  by (simp add: goto_state_def switch_to_def Let_def)

lemma set_error_frame [simp]:
  "opts (set_error_if_first s c m) = opts s" "file_man (set_error_if_first s c m) = file_man s"
  "stat (set_error_if_first s c m) = stat s" "stage (set_error_if_first s c m) = stage s"
  "sess_settings (set_error_if_first s c m) = sess_settings s" "cl_addr (set_error_if_first s c m) = cl_addr s"
  by (simp_all add: set_error_if_first_def)

lemma dm_callback_frame [simp]:
  "opts (dm_callback s err) = opts s" "file_man (dm_callback s err) = file_man s"
  "stat (dm_callback s err) = stat s" "stage (dm_callback s err) = stage s"
  "sess_settings (dm_callback s err) = sess_settings s" "cl_addr (dm_callback s err) = cl_addr s"
  by (auto simp: dm_callback_def split: option.splits)

text \<open>The first error stays: later ones are ignored.\<close>

lemma set_error_keeps: "was_error s \<Longrightarrow> set_error_if_first s c m = s"
  by (simp add: set_error_if_first_def)

lemma set_error_was_error: "m \<noteq> [] \<Longrightarrow> was_error (set_error_if_first s c m)"
  by (simp add: set_error_if_first_def was_error_def)

lemma dm_callback_keeps: "was_error s \<Longrightarrow> dm_callback s err = s"
  by (auto simp: dm_callback_def set_error_keeps split: option.splits)

section \<open>Receiving\<close>

text \<open>What a received packet is to the session: at most the buffer size of it, and its two fields.\<close>

definition rx_cut :: "byte list \<Rightarrow> byte list" where
  "rx_cut pkt = take 0xFFFF pkt"

definition pkt_field :: "byte list \<Rightarrow> nat \<Rightarrow> u16" where
  "pkt_field pkt off = (if length pkt > 3 then of_nat (be_val (take 2 (drop off pkt))) else 0)"

definition rx_buf :: "smbufex \<Rightarrow> byte list \<Rightarrow> smbufex" where
  "rx_buf b pkt = b\<lparr>sb_buf := put_at (sb_buf b) 0 (rx_cut pkt), data_size := length (rx_cut pkt)\<rparr>"

lemma length_rx_cut: "length (rx_cut pkt) \<le> 65535"
  by (simp add: rx_cut_def)

lemma sbuf_ok_rx_buf: "sbuf_ok b \<Longrightarrow> sbuf_ok (rx_buf b pkt)"
  using length_rx_cut [of pkt] by (simp add: sbuf_ok_def smbufex_inv_def vec_ok_def rx_buf_def)

lemma take_rx_buf:
  assumes "sbuf_ok b" "n \<le> length (rx_cut pkt)"
  shows "take (n - k) (drop k (sb_buf (rx_buf b pkt))) = take (n - k) (drop k (rx_cut pkt))"
proof -
  have "sb_buf (rx_buf b pkt) = rx_cut pkt @ drop (length (rx_cut pkt)) (sb_buf b)"
    by (simp add: rx_buf_def put_at_def)
  then show ?thesis using assms(2) by (cases "k \<le> length (rx_cut pkt)") auto
qed

lemma rx_field_eq:
  assumes "sbuf_ok b" "off \<le> 2"
  shows "rx_field (sb_buf (rx_buf b pkt)) (length (rx_cut pkt)) off = Inr (pkt_field pkt off)"
proof (cases "length (rx_cut pkt) > 3")
  case True
  have len: "length (sb_buf (rx_buf b pkt)) = 65535"
    using sbuf_ok_rx_buf [OF assms(1), of pkt] by (simp add: sbuf_ok_def)
  have "is_valid (sb_buf (rx_buf b pkt)) off 2"
    using assms(2) len by (intro is_validI) (simp_all add: vec_ok_def)
  moreover have "take 2 (drop off (sb_buf (rx_buf b pkt))) = take 2 (drop off pkt)"
  proof -
    have "take (off + 2 - off) (drop off (sb_buf (rx_buf b pkt))) = take (off + 2 - off) (drop off (rx_cut pkt))"
      by (rule take_rx_buf [OF assms(1)]) (use True assms(2) in simp)
    also have "\<dots> = take 2 (drop off pkt)" using assms(2) by (simp add: rx_cut_def drop_take min_def)
    finally show ?thesis by simp
  qed
  ultimately show ?thesis
    using True by (simp add: rx_field_def be16.get_eq pkt_field_def rx_cut_def)
next
  case False
  then show ?thesis by (simp add: rx_field_def pkt_field_def rx_cut_def)
qed

lemma get_error_text:
  assumes "sbuf_ok b"
  shows "\<exists>t. get_string (sb_buf b) 4 0 = Inr t"
proof -
  have "is_valid (sb_buf b) 4 0"
    using assms by (simp add: is_valid_def sbuf_ok_def sz_add_exact)
  then show ?thesis by (simp add: get_string_def check_offset_def)
qed

lemma receive_pkt_eq:
  assumes "sbuf_ok b" "e_rx e = Rx_pkt pkt from"
  shows "receive_no_wait e s b =
    (if rx_client from \<noteq> a_bytes (cl_addr s) then Inr (tr_nop, s, rx_buf b pkt)
     else if pkt_field pkt 0 = 3 \<and> stat s = data_rx then
       (case receive_data e s (sb_buf (rx_buf b pkt)) (length (rx_cut pkt)) (pkt_field pkt 2) of
          Inl x \<Rightarrow> Inl x
        | Inr (r, s') \<Rightarrow> Inr (r, s', rx_buf b pkt))
     else if pkt_field pkt 0 = 4 \<and> stat s = ack_rx then
       (case receive_ack s (pkt_field pkt 2) of (r, s') \<Rightarrow> Inr (r, s', rx_buf b pkt))
     else Inr (tr_nop, s, rx_buf b pkt))"
proof -
  have len: "length (sb_buf b) = 65535" using assms(1) by (simp add: sbuf_ok_def)
  have cut: "take (length (sb_buf b)) pkt = rx_cut pkt" using len by (simp add: rx_cut_def)
  have b1: "data_size_reset (b\<lparr>sb_buf := put_at (sb_buf b) 0 (rx_cut pkt)\<rparr>) (length (rx_cut pkt)) = Inr (rx_buf b pkt)"
    using len length_rx_cut [of pkt] by (simp add: data_size_reset_def rx_buf_def)
  obtain t where t: "get_string (sb_buf (rx_buf b pkt)) 4 0 = Inr t"
    using get_error_text [OF sbuf_ok_rx_buf [OF assms(1)]] by blast
  have t': "(if op = 5 then get_string (sb_buf (rx_buf b pkt)) 4 0 else Inr []) = Inr (if op = 5 then t else [])"
    for op :: u16 using t by simp
  have f: "rx_field (sb_buf (rx_buf b pkt)) (length (rx_cut pkt)) 0 = Inr (pkt_field pkt 0)"
    "rx_field (sb_buf (rx_buf b pkt)) (length (rx_cut pkt)) 2 = Inr (pkt_field pkt 2)"
    using rx_field_eq [OF assms(1)] by simp_all
  show ?thesis
    unfolding receive_no_wait_def assms(2) rx_result.case Let_def cut b1 sum.case f t' by simp
qed

lemma receive_errno:
  "e_rx e = Rx_errno n \<Longrightarrow> receive_no_wait e s b = Inr (if n = EAGAIN then tr_nop else tr_fail, s, b)"
  by (simp add: receive_no_wait_def)

lemma dm_write_frame:
  assumes "dm_write d bs p ok = Inr (n, err, d')"
  shows "request_type d' = request_type d" "err = None \<or> (\<exists>m. err = Some (0, m) \<and> length m \<le> 1024)"
  using assms
  by (auto simp: dm_write_def dm_set_error_def Let_def split: if_splits sum.splits)

text \<open>What receiving keeps of the session.\<close>

definition same_session :: "session \<Rightarrow> session \<Rightarrow> bool" where
  "same_session s s' \<longleftrightarrow> stat s' = stat s \<and> opts s' = opts s \<and> sess_settings s' = sess_settings s \<and>
     cl_addr s' = cl_addr s \<and> (file_man s \<noteq> None \<longrightarrow> file_man s' \<noteq> None) \<and>
     (length (error_message s) \<le> 1024 \<longrightarrow> length (error_message s') \<le> 1024) \<and>
     (was_error s \<longrightarrow> error_code s' = error_code s \<and> error_message s' = error_message s)"

lemma same_session_refl [simp]: "same_session s s"
  by (simp add: same_session_def)

lemma same_session_trans: "same_session s t \<Longrightarrow> same_session t u \<Longrightarrow> same_session s u"
  by (auto simp: same_session_def was_error_def)

lemma same_session_set_error: "length m \<le> 1024 \<Longrightarrow> same_session s (set_error_if_first s c m)"
  by (auto simp: same_session_def set_error_if_first_def)

lemma same_session_callback:
  assumes "err = None \<or> (\<exists>c m. err = Some (c, m) \<and> length m \<le> 1024)"
  shows "same_session s (dm_callback s err)"
  using assms by (auto simp: dm_callback_def same_session_set_error)

lemma same_session_update [simp]:
  "same_session s (s\<lparr>stage := n\<rparr>)" "same_session s (s\<lparr>file_man := Some d\<rparr>)" "same_session s (rx_set_stage s k)"
  by (simp_all add: same_session_def was_error_def rx_set_stage_def)

lemma same_session_dm:
  assumes "err = None \<or> (\<exists>m. err = Some (0, m) \<and> length m \<le> 1024)"
  shows "same_session s (dm_callback (s\<lparr>file_man := Some d\<rparr>) err)"
  by (rule same_session_trans [OF _ same_session_callback]) (use assms in auto)

lemma receive_data_frame:
  assumes "receive_data e s b n k = Inr (res, s')"
  shows "same_session s s'"
proof (cases "rx_stage_ok s k")
  case True
  let ?s1 = "rx_set_stage s k"
  obtain d st err d' where w: "dm_write d (take (n - 4) (drop 4 b)) (blk_pos ?s1) (e_dev e) = Inr (st, err, d')"
    and s': "s' = dm_callback (?s1\<lparr>file_man := Some d'\<rparr>) err \<or>
             s' = set_error_if_first (dm_callback (?s1\<lparr>file_man := Some d'\<rparr>) err) 0 ''Error when try to store data''"
    using assms True by (auto simp: receive_data_def Let_def split: option.splits sum.splits if_splits)
  have 1: "same_session s (dm_callback (?s1\<lparr>file_man := Some d'\<rparr>) err)"
    by (rule same_session_trans [OF _ same_session_dm [OF dm_write_frame(2) [OF w]]]) simp
  have "same_session (dm_callback (?s1\<lparr>file_man := Some d'\<rparr>) err)
      (set_error_if_first (dm_callback (?s1\<lparr>file_man := Some d'\<rparr>) err) 0 ''Error when try to store data'')"
    by (rule same_session_set_error) simp
  from same_session_trans [OF 1 this] 1 s' show ?thesis by blast
next
  case False
  then show ?thesis using assms same_session_set_error by (auto simp: receive_data_def)
qed

lemma receive_ack_frame: "receive_ack s k = (res, s') \<Longrightarrow> same_session s s'"
  using same_session_set_error [of "''Error received number ack block''" s 0]
  by (auto simp: receive_ack_def split: if_splits)

lemma receive_frame:
  assumes "sbuf_ok b" "receive_no_wait e s b = Inr (res, s', b')"
  shows "same_session s s' \<and> sbuf_ok b'"
proof (cases "e_rx e")
  case (Rx_errno n)
  then show ?thesis using assms by (simp add: receive_errno)
next
  case (Rx_pkt pkt fr)
  then show ?thesis
    using assms(2) sbuf_ok_rx_buf [OF assms(1)]
    unfolding receive_pkt_eq [OF assms(1) Rx_pkt]
    by (auto split: if_splits sum.splits prod.splits dest: receive_data_frame receive_ack_frame)
qed

section \<open>Steps\<close>

text \<open>
  What every iteration does, whatever its inputs: options, settings and client stay, the state goes
  along a transition \<open>switch_to\<close> accepts or to \<open>finish\<close>, the first error stays, at most one packet
  is sent, and only the state \<open>retransmit\<close> counts.
\<close>

definition step_rel :: "run_state \<Rightarrow> run_state \<Rightarrow> bool" where
  "step_rel r r' \<longleftrightarrow>
     opts (sess r') = opts (sess r) \<and> sess_settings (sess r') = sess_settings (sess r) \<and>
     cl_addr (sess r') = cl_addr (sess r) \<and>
     (stat (sess r') = stat (sess r) \<or> allowed (stat (sess r)) (stat (sess r')) \<or> stat (sess r') = finish) \<and>
     (was_error (sess r) \<longrightarrow> error_code (sess r') = error_code (sess r) \<and> error_message (sess r') = error_message (sess r)) \<and>
     (\<exists>ps. sent r' = sent r @ ps \<and> length ps \<le> 1) \<and>
     (file_man (sess r) \<noteq> None \<longrightarrow> file_man (sess r') \<noteq> None) \<and>
     retr_count r' = retr_count r + (if stat (sess r) = retransmit then 1 else 0)"

lemma small_frames [simp]:
  "sess (timeout_reset e r) = sess r" "local_buf (timeout_reset e r) = local_buf r"
  "world (timeout_reset e r) = world r" "sent (timeout_reset e r) = sent r"
  "retr_count (timeout_reset e r) = retr_count r" "last_blk_processed (timeout_reset e r) = last_blk_processed r"
  "oper_time (timeout_reset e r) = e_time e"
  "sess (send_buf e r) = sess r" "local_buf (send_buf e r) = local_buf r" "world (send_buf e r) = world r"
  "retr_count (send_buf e r) = retr_count r" "last_blk_processed (send_buf e r) = last_blk_processed r"
  "oper_time (send_buf e r) = oper_time r"
  "sess (set_stage n r) = (sess r)\<lparr>stage := n\<rparr>" "local_buf (set_stage n r) = local_buf r"
  "world (set_stage n r) = world r" "sent (set_stage n r) = sent r" "retr_count (set_stage n r) = retr_count r"
  "last_blk_processed (set_stage n r) = last_blk_processed r" "oper_time (set_stage n r) = oper_time r"
  by (simp_all add: timeout_reset_def send_buf_def set_stage_def)

lemma inc_stage_frame [simp]:
  "sess (inc_stage r) = (sess r)\<lparr>stage := sz_add (stage (sess r)) 1\<rparr>" "local_buf (inc_stage r) = local_buf r"
  "world (inc_stage r) = world r" "sent (inc_stage r) = sent r" "retr_count (inc_stage r) = retr_count r"
  "last_blk_processed (inc_stage r) = last_blk_processed r" "oper_time (inc_stage r) = oper_time r"
  by (simp_all add: inc_stage_def)

lemma send_buf_sent: "\<exists>ps. sent (send_buf e r) = sent r @ ps \<and> length ps \<le> 1"
  by (simp add: send_buf_def transmit_no_wait_def Let_def)

lemma was_error_stage [simp]: "was_error (s\<lparr>stage := n\<rparr>) = was_error s" "was_error (s\<lparr>file_man := f\<rparr>) = was_error s"
  by (simp_all add: was_error_def)

lemma dm_init_frame:
  assumes "dm_init fs s d opt = Inr (ret, err, d', fs')" "what_ok fs"
  shows "what_ok fs'" "err = None \<or> (\<exists>c m. err = Some (c, m) \<and> length m \<le> 1024)"
    "request_type d' = o_request_type opt"
  using assms
  by (auto simp: dm_init_def init_read_def init_write_def dm_set_error_def Let_def fs_set_def what_ok_def
      split: srv_req.splits sum.splits option.splits bool.splits if_splits)

lemma sess_init_frame:
  assumes "sess_init e fs s = Inr (ret, s', fs')" "what_ok fs"
  shows "same_session s s'" "what_ok fs'" "ret \<longrightarrow> file_man s' \<noteq> None"
proof -
  let ?s1 = "s\<lparr>sock := e_socket e\<rparr>"
  have 0: "same_session s ?s1" by (simp add: same_session_def was_error_def)
  have "same_session s s' \<and> what_ok fs' \<and> (ret \<longrightarrow> file_man s' \<noteq> None)"
  proof (cases "e_socket e < 0 \<or> e_bind e = - 1")
    case True
    then show ?thesis using assms 0 by (simp add: sess_init_def Let_def)
  next
    case False
    then obtain i err d where di: "dm_init fs (sess_settings s) dmf_new (opts s) = Inr (i, err, d, fs')"
      and s': "s' = (if i then dm_callback (?s1\<lparr>file_man := Some d\<rparr>) err
        else set_error_if_first (dm_callback (?s1\<lparr>file_man := Some d\<rparr>) err) 0
          ''Unknown stream initialize error; break session'')"
      using assms(1) by (auto simp: sess_init_def Let_def split: sum.splits)
    note df = dm_init_frame [OF di assms(2)]
    have 1: "same_session s (dm_callback (?s1\<lparr>file_man := Some d\<rparr>) err)"
      by (rule same_session_trans [OF same_session_trans [OF 0] same_session_callback [OF df(2)]]) simp
    have "same_session s s'"
      unfolding s' using 1 same_session_trans [OF 1 same_session_set_error] by simp
    then show ?thesis using df(1) by (auto simp: s')
  qed
  then show "same_session s s'" "what_ok fs'" "ret \<longrightarrow> file_man s' \<noteq> None" by auto
qed

lemma construct_data_frame:
  assumes "sbuf_ok b" "construct_data s b = Inr (s', b')"
  shows "same_session s s'" "sbuf_ok b'" "unat (block_size s) \<le> 65531"
proof -
  have len: "length (sb_buf b) = 65535" using assms(1) by (simp add: sbuf_ok_def)
  obtain d where d: "file_man s = Some d" and bs: "unat (block_size s) \<le> 65531"
    using assms(2) len
    by (auto simp: construct_data_def push_header [OF assms(1)] split: option.splits if_splits)
  then obtain ret got err d' where rd: "dm_read d (unat (block_size s)) (blk_pos s) = Inr (ret, got, err, d')"
    using assms(2) by (auto simp: construct_data_def push_header [OF assms(1)] split: sum.splits if_splits)
  note bd = dm_read_bounds [OF rd]
  let ?s1 = "dm_callback (s\<lparr>file_man := Some d'\<rparr>) err"
  have 1: "same_session s ?s1" by (rule same_session_dm [OF bd(4)])
  have 2: "same_session s (set_error_if_first ?s1 0 ''Failed prepare data to send'')"
    by (rule same_session_trans [OF 1 same_session_set_error]) simp
  have n: "nat ret \<le> 65531" "length got \<le> 65531" using bd(1,2) bs by linarith+
  show "same_session s s'" "sbuf_ok b'"
    using assms(2) 1 2 n sbuf_ok_data_buf [OF assms(1) n(2)]
    unfolding construct_data_eq [OF assms(1) d bs rd] Let_def by (auto split: if_splits)
  show "unat (block_size s) \<le> 65531" by (rule bs)
qed

lemma step_rel_after [simp]:
  "step_rel r (timeout_reset e x) = step_rel r x" "step_rel r (set_stage n x) = step_rel r x"
  "step_rel r (inc_stage x) = step_rel r x"
  "run_inv (timeout_reset e x) = run_inv x" "run_inv (set_stage n x) = run_inv x"
  "run_inv (inc_stage x) = run_inv x"
  by (simp_all add: step_rel_def run_inv_def)

text \<open>A step that ends by switching the state, or that stays in it.\<close>

lemma step_goto:
  assumes "run_inv r" "same_session (sess r) (sess x)" "sbuf_ok (local_buf x)" "what_ok (world x)"
    "\<exists>ps. sent x = sent r @ ps \<and> length ps \<le> 1" "n = finish \<or> file_man (sess x) \<noteq> None"
    "retr_count x = retr_count r + (if stat (sess r) = retransmit then 1 else 0)"
  shows "step_rel r (goto_state n x) \<and> run_inv (goto_state n x)"
  using assms
  by (auto simp: step_rel_def run_inv_def same_session_def goto_state_stat under_way_def split: if_splits)

lemma step_stay:
  assumes "run_inv r" "same_session (sess r) (sess x)" "sbuf_ok (local_buf x)" "what_ok (world x)"
    "\<exists>ps. sent x = sent r @ ps \<and> length ps \<le> 1" "stat (sess r) \<noteq> retransmit" "retr_count x = retr_count r"
  shows "step_rel r x \<and> run_inv x"
  using assms by (auto simp: step_rel_def run_inv_def same_session_def)

lemma run_invD:
  assumes "run_inv r"
  shows "sbuf_ok (local_buf r)" "opts_ok (opts (sess r))" "what_ok (world r)"
    "length (error_message (sess r)) \<le> 1024"
    "stat (sess r) \<notin> {need_init, finish} \<Longrightarrow> file_man (sess r) \<noteq> None"
  using assms by (auto simp: run_inv_def under_way_def)

lemma step_need_init_ok:
  assumes "run_inv r" "stat (sess r) = need_init" "step_need_init e r = Inr r'"
  shows "step_rel r r' \<and> run_inv r'"
proof -
  obtain ret s fs where i: "sess_init e (world r) (sess r) = Inr (ret, s, fs)"
    and r': "r' = (let r1 = r\<lparr>sess := s, world := fs\<rparr> in
      if ret then (if was_error s then goto_state error_and_stop r1 else goto_state ack_options r1)
      else goto_state finish r1)"
    using assms(3) by (auto simp: step_need_init_def Let_def split: sum.splits)
  note f = sess_init_frame [OF i run_invD(3) [OF assms(1)]]
  have g: "step_rel r (goto_state n (r\<lparr>sess := s, world := fs\<rparr>)) \<and> run_inv (goto_state n (r\<lparr>sess := s, world := fs\<rparr>))"
    if "n = finish \<or> ret" for n
    by (rule step_goto [OF assms(1)]) (use f that assms(2) run_invD(1) [OF assms(1)] in auto)
  show ?thesis using g [of error_and_stop] g [of ack_options] g [of finish] by (simp add: r' Let_def)
qed

lemma step_error_and_stop_ok:
  assumes "run_inv r" "stat (sess r) = error_and_stop" "step_error_and_stop e r = Inr r'"
  shows "step_rel r r' \<and> run_inv r'"
proof (cases "was_error (sess r)")
  case True
  let ?m = "error_message (sess r)"
  have m: "length ?m \<le> 65530" using run_invD(4) [OF assms(1)] by simp
  let ?b = "appended (buf_clear (local_buf r)) (error_pkt (error_code (sess r)) ?m)"
  have r': "r' = goto_state finish (send_buf e (r\<lparr>local_buf := ?b\<rparr>))"
    using assms(3) True construct_error_eq [OF run_invD(1) [OF assms(1)] True m]
    by (simp add: step_error_and_stop_def)
  show ?thesis
    unfolding r'
    by (rule step_goto [OF assms(1)])
      (use assms(2) run_invD [OF assms(1)] error_pkt_sent(2) [OF run_invD(1) [OF assms(1)] m]
        send_buf_sent [of e "r\<lparr>local_buf := ?b\<rparr>"] in auto)
next
  case False
  then have r': "r' = goto_state finish r" using assms(3) by (simp add: step_error_and_stop_def)
  show ?thesis unfolding r' by (rule step_goto [OF assms(1)]) (use assms(2) run_invD [OF assms(1)] in auto)
qed

lemma step_ack_options_ok:
  assumes "run_inv r" "stat (sess r) = ack_options" "step_ack_options e r = Inr r'"
  shows "step_rel r r' \<and> run_inv r'"
proof -
  let ?any = "was_set_any (opts (sess r))"
  note inv = run_invD [OF assms(1)]
  obtain b where b: "(if ?any then construct_opt_reply (sess r) (local_buf r) else Inr (local_buf r)) = Inr b"
    using assms(3) by (auto simp: step_ack_options_def Let_def split: sum.splits)
  have okb: "sbuf_ok b"
    using b inv(1) construct_opt_reply_eq [OF inv(1,2)] by (auto split: if_splits)
  define x where "x = timeout_reset e (if ?any then send_buf e (r\<lparr>local_buf := b\<rparr>) else r\<lparr>local_buf := b\<rparr>)"
  have x: "sess x = sess r" "local_buf x = b" "world x = world r" "retr_count x = retr_count r"
    "\<exists>ps. sent x = sent r @ ps \<and> length ps \<le> 1"
    using send_buf_sent [of e "r\<lparr>local_buf := b\<rparr>"] by (auto simp: x_def)
  have r': "r' = (case o_request_type (opts (sess r)) of
      srv_unknown \<Rightarrow> goto_state error_and_stop x
    | srv_read \<Rightarrow> (if ?any then set_stage 0 (goto_state ack_rx x) else set_stage 1 (goto_state data_tx x))
    | srv_write \<Rightarrow> (if ?any then set_stage 1 (goto_state data_rx x) else goto_state ack_tx (set_stage 0 x)))"
    using assms(3) unfolding step_ack_options_def Let_def b sum.case by (auto simp only: x_def sum.inject)
  have g: "step_rel r (goto_state n y) \<and> run_inv (goto_state n y)" if "y = x \<or> y = set_stage 0 x" for n y
    by (rule step_goto [OF assms(1)]) (use that x inv okb assms(2) in auto)
  show ?thesis unfolding r' using g by (auto split: srv_req.split)
qed

lemma step_data_tx_ok:
  assumes "run_inv r" "stat (sess r) = data_tx" "step_data_tx e r = Inr r'"
  shows "step_rel r r' \<and> run_inv r'"
proof -
  note inv = run_invD [OF assms(1)]
  obtain s b where c: "construct_data (sess r) (local_buf r) = Inr (s, b)"
    using assms(3) by (auto simp: step_data_tx_def split: sum.splits)
  note f = construct_data_frame [OF inv(1) c]
  define y where "y = (send_buf e (r\<lparr>sess := s, local_buf := b\<rparr>))\<lparr>last_blk_processed := (data_size b \<noteq> full_data_size s)\<rparr>"
  have y: "sess y = s" "local_buf y = b" "world y = world r" "retr_count y = retr_count r"
    "\<exists>ps. sent y = sent r @ ps \<and> length ps \<le> 1"
    using send_buf_sent [of e "r\<lparr>sess := s, local_buf := b\<rparr>"] by (auto simp: y_def)
  have fm: "file_man s \<noteq> None" using f(1) inv(5) assms(2) by (simp add: same_session_def)
  have r': "r' = goto_state error_and_stop (r\<lparr>sess := s, local_buf := b\<rparr>) \<or> r' = y \<or>
      r' = goto_state ack_rx (timeout_reset e y)"
    using assms(3) c by (auto simp: step_data_tx_def Let_def y_def split: if_splits)
  have 1: "step_rel r (goto_state n z) \<and> run_inv (goto_state n z)"
    if "z = r\<lparr>sess := s, local_buf := b\<rparr> \<or> z = timeout_reset e y" for n z
    by (rule step_goto [OF assms(1)]) (use that y f fm inv assms(2) in auto)
  have 2: "step_rel r y \<and> run_inv y"
    by (rule step_stay [OF assms(1)]) (use y f inv assms(2) in auto)
  show ?thesis using r' 1 2 by blast
qed

lemma poll_timeout_ok:
  assumes "run_inv r" "stat (sess r) \<in> {data_rx, ack_rx}" "same_session (sess r) s" "sbuf_ok b"
    "poll_timeout e (r\<lparr>sess := s, local_buf := b\<rparr>) = Inr r'"
  shows "step_rel r r' \<and> run_inv r'"
proof -
  let ?x = "r\<lparr>sess := s, local_buf := b\<rparr>"
  note inv = run_invD [OF assms(1)]
  have fm: "file_man s \<noteq> None" using assms(2,3) inv(5) by (auto simp: same_session_def)
  have "r' = goto_state retransmit ?x \<or> r' = ?x"
    using assms(5) by (auto simp: poll_timeout_def split: sum.splits if_splits)
  moreover have "step_rel r (goto_state retransmit ?x) \<and> run_inv (goto_state retransmit ?x)"
    by (rule step_goto [OF assms(1)]) (use assms fm inv in auto)
  moreover have "step_rel r ?x \<and> run_inv ?x"
    by (rule step_stay [OF assms(1)]) (use assms inv in auto)
  ultimately show ?thesis by blast
qed

lemma step_data_rx_ok:
  assumes "run_inv r" "stat (sess r) = data_rx" "step_data_rx e r = Inr r'"
  shows "step_rel r r' \<and> run_inv r'"
proof -
  note inv = run_invD [OF assms(1)]
  obtain res s b where c: "receive_no_wait e (sess r) (local_buf r) = Inr (res, s, b)"
    using assms(3) by (auto simp: step_data_rx_def split: sum.splits)
  have f: "same_session (sess r) s" "sbuf_ok b" using receive_frame [OF inv(1) c] by auto
  have fm: "file_man s \<noteq> None" using f(1) inv(5) assms(2) by (simp add: same_session_def)
  define y where "y = r\<lparr>sess := s, local_buf := b, last_blk_processed := (data_size b \<noteq> full_data_size s)\<rparr>"
  have 1: "step_rel r (goto_state n z) \<and> run_inv (goto_state n z)"
    if "z = r\<lparr>sess := s, local_buf := b\<rparr> \<or> z = y" for n z
    by (rule step_goto [OF assms(1)]) (use that f fm inv assms(2) in \<open>auto simp: y_def\<close>)
  have 2: "step_rel r y \<and> run_inv y"
    by (rule step_stay [OF assms(1)]) (use f inv assms(2) in \<open>auto simp: y_def\<close>)
  have "poll_timeout e (r\<lparr>sess := s, local_buf := b\<rparr>) = Inr r' \<or>
      r' = goto_state ack_tx y \<or> r' = timeout_reset e (inc_stage y) \<or>
      r' = goto_state error_and_stop (r\<lparr>sess := s, local_buf := b\<rparr>)"
    using assms(3) c by (auto simp: step_data_rx_def Let_def y_def split: triple_result.splits if_splits)
  then show ?thesis using 1 2 poll_timeout_ok [OF assms(1) _ f] assms(2) by auto
qed

lemma step_ack_rx_ok:
  assumes "run_inv r" "stat (sess r) = ack_rx" "step_ack_rx e r = Inr r'"
  shows "step_rel r r' \<and> run_inv r'"
proof -
  note inv = run_invD [OF assms(1)]
  obtain res s b where c: "receive_no_wait e (sess r) (local_buf r) = Inr (res, s, b)"
    using assms(3) by (auto simp: step_ack_rx_def split: sum.splits)
  have f: "same_session (sess r) s" "sbuf_ok b" using receive_frame [OF inv(1) c] by auto
  have fm: "file_man s \<noteq> None" using f(1) inv(5) assms(2) by (simp add: same_session_def)
  let ?x = "r\<lparr>sess := s, local_buf := b\<rparr>"
  have 1: "step_rel r (goto_state n ?x) \<and> run_inv (goto_state n ?x)" for n
    by (rule step_goto [OF assms(1)]) (use f fm inv assms(2) in auto)
  have "poll_timeout e ?x = Inr r' \<or> r' = goto_state finish ?x \<or>
      r' = timeout_reset e (inc_stage (goto_state data_tx ?x)) \<or> r' = goto_state error_and_stop ?x"
    using assms(3) c by (auto simp: step_ack_rx_def Let_def split: triple_result.splits if_splits)
  then show ?thesis using 1 poll_timeout_ok [OF assms(1) _ f] assms(2) by auto
qed

lemma step_ack_tx_ok:
  assumes "run_inv r" "stat (sess r) = ack_tx" "step_ack_tx e r = Inr r'"
  shows "step_rel r r' \<and> run_inv r'"
proof -
  note inv = run_invD [OF assms(1)]
  obtain b where c: "construct_ack (sess r) (local_buf r) = Inr b" and okb: "sbuf_ok b"
    using construct_ack_eq [OF inv(1)] by metis
  define x where "x = inc_stage (send_buf e (r\<lparr>local_buf := b\<rparr>))"
  have x: "sess x = (sess r)\<lparr>stage := sz_add (stage (sess r)) 1\<rparr>" "local_buf x = b" "world x = world r"
    "retr_count x = retr_count r" "\<exists>ps. sent x = sent r @ ps \<and> length ps \<le> 1"
    using send_buf_sent [of e "r\<lparr>local_buf := b\<rparr>"] by (auto simp: x_def)
  have 1: "step_rel r (goto_state n x) \<and> run_inv (goto_state n x)" for n
    by (rule step_goto [OF assms(1)]) (use x okb inv assms(2) in auto)
  have "r' = goto_state finish x \<or> r' = timeout_reset e (goto_state data_rx x)"
    using assms(3) c by (auto simp: step_ack_tx_def Let_def x_def split: if_splits)
  then show ?thesis using 1 by auto
qed

lemma step_retransmit_ok:
  assumes "run_inv r" "stat (sess r) = retransmit" "step_retransmit e r = Inr r'"
  shows "step_rel r r' \<and> run_inv r'"
proof -
  note inv = run_invD [OF assms(1)]
  let ?x = "r\<lparr>retr_count := retr_count r + 1\<rparr>"
  have 1: "step_rel r (goto_state n ?x) \<and> run_inv (goto_state n ?x)" for n
    by (rule step_goto [OF assms(1)]) (use inv assms(2) in auto)
  have "\<exists>n. r' = goto_state n ?x \<or> r' = timeout_reset e (goto_state n ?x)"
    using assms(3) by (auto simp: step_retransmit_def Let_def split: srv_req.splits if_splits)
  then show ?thesis using 1 by auto
qed

lemma run_step_ok:
  assumes "run_inv r" "run_step e r = Inr r'"
  shows "step_rel r r' \<and> run_inv r'"
proof (cases "stat (sess r)")
  case finish
  then show ?thesis using assms by (auto simp: run_step_def step_rel_def)
qed (use assms in \<open>auto simp: run_step_def dest: step_need_init_ok step_error_and_stop_ok
    step_ack_options_ok step_data_tx_ok step_data_rx_ok step_ack_tx_ok step_ack_rx_ok step_retransmit_ok\<close>)

section \<open>Requests have bounded options\<close>

lemma set_option_opts_ok: "opts_ok o' \<Longrightarrow> set_option o' nm v = Inr o'' \<Longrightarrow> opts_ok o''"
  by (auto simp: set_option_def stoi_digits opts_ok_def blksize_def timeout_def tsize_def windowsize_opt_def
      split: if_splits sum.splits)

lemma parse_options_opts_ok: "opts_ok o' \<Longrightarrow> parse_options b n pos o' = Inr o'' \<Longrightarrow> opts_ok o''"
proof (induction b n pos o' rule: parse_options.induct)
  case (1 b n pos o')
  note eq = parse_options.simps [of b n pos o']
  show ?case
  proof (cases "pos < n")
    case True
    then obtain s where s: "get_string b pos (sz_sub n pos) = Inr s"
      using "1.prems"(2) eq by (cases "get_string b pos (sz_sub n pos)") simp_all
    define pos1 where "pos1 = pos + length (do_lower s) + 1"
    show ?thesis
    proof (cases "pos1 \<ge> n")
      case True
      then show ?thesis using "1.prems" eq s \<open>pos < n\<close> by (simp add: Let_def pos1_def)
    next
      case False
      obtain v where v: "get_string b pos1 (sz_sub n pos1) = Inr v"
        using "1.prems"(2) eq s True False
        by (cases "get_string b pos1 (sz_sub n pos1)") (simp_all add: Let_def pos1_def)
      obtain o1 where o1: "set_option o' (do_lower s) v = Inr o1"
        using "1.prems"(2) eq s v True False
        by (cases "set_option o' (do_lower s) v") (simp_all add: Let_def pos1_def)
      have "parse_options b n (pos1 + length v + 1) o1 = Inr o''"
        using "1.prems"(2) eq s v o1 True False by (simp add: Let_def pos1_def)
      then show ?thesis
        using "1.IH" [OF True s refl pos1_def False v o1] set_option_opts_ok [OF "1.prems"(1) o1] by simp
    qed
  qed (use "1.prems" eq in simp)
qed

lemma opts_ok_update [simp]:
  "opts_ok (p\<lparr>o_request_type := x\<rparr>) = opts_ok p" "opts_ok (p\<lparr>o_filename := y\<rparr>) = opts_ok p"
  "opts_ok (p\<lparr>o_transfer_mode := z\<rparr>) = opts_ok p"
  by (simp_all add: opts_ok_def blksize_def timeout_def tsize_def windowsize_opt_def)

lemma buffer_parse_opts_ok:
  assumes "buffer_parse b n = Inr (ret, o')"
  shows "opts_ok o'"
proof -
  have new: "opts_ok options_new"
    by (simp add: options_new_def opts_ok_def blksize_def timeout_def tsize_def windowsize_opt_def)
  have 1: "opts_ok o1" if "parse_request_type b 0 options_new = Inr (r, p, o1)" for r p o1
    using that new by (auto simp: parse_request_type_def Let_def split: sum.splits if_splits)
  have 2: "opts_ok o2" if "parse_filename b n p o1 = Inr (r, q, o2)" "opts_ok o1" for r p q o1 o2
    using that by (auto simp: parse_filename_def split: sum.splits if_splits)
  have 3: "opts_ok o2" if "parse_mode b n p o1 = Inr (r, q, o2)" "opts_ok o1" for r p q o1 o2
    using that by (auto simp: parse_mode_def Let_def split: sum.splits if_splits)
  show ?thesis
    using assms new
    by (auto simp: buffer_parse_def split: if_splits sum.splits prod.splits
        dest!: 1 2 3 intro: parse_options_opts_ok)
qed

section \<open>The loop as a step relation\<close>

inductive sess_step :: "run_state \<Rightarrow> run_state \<Rightarrow> bool" where
  iterate: "\<not> is_finished (sess r) \<Longrightarrow> run_step e r = Inr r' \<Longrightarrow> sess_step r r'"

inductive_cases sess_stepE: "sess_step r r'"

inductive sess_reach :: "run_state \<Rightarrow> run_state \<Rightarrow> bool" where
  reach_refl: "sess_reach r r"
| reach_step: "sess_reach r r' \<Longrightarrow> sess_step r' r'' \<Longrightarrow> sess_reach r r''"

lemma sess_step_ok: "run_inv r \<Longrightarrow> sess_step r r' \<Longrightarrow> step_rel r r' \<and> run_inv r'"
  by (auto elim!: sess_stepE dest: run_step_ok)

lemma sess_reach_inv: "sess_reach r r' \<Longrightarrow> run_inv r \<Longrightarrow> run_inv r'"
  by (induction rule: sess_reach.induct) (auto dest: sess_step_ok)

text \<open>The executable loop only goes through reachable states.\<close>

lemma sess_reach_front: "sess_step r r1 \<Longrightarrow> sess_reach r1 r' \<Longrightarrow> sess_reach r r'"
  by (rotate_tac, induction rule: sess_reach.induct) (auto intro: sess_reach.intros)

lemma run_loop_reach: "run_loop es r = Inr r' \<Longrightarrow> sess_reach r r'"
proof (induction es arbitrary: r)
  case (Cons e es)
  show ?case
  proof (cases "is_finished (sess r)")
    case False
    then obtain r1 where r1: "run_step e r = Inr r1" "run_loop es r1 = Inr r'"
      using Cons.prems by (auto split: sum.splits)
    then show ?thesis using Cons.IH [OF r1(2)] sess_reach_front iterate [OF False r1(1)] by blast
  qed (use Cons.prems in \<open>auto intro: reach_refl\<close>)
qed (auto intro: reach_refl)

lemma reach_kept:
  assumes "sess_reach r r'" "run_inv r"
  shows "opts (sess r') = opts (sess r) \<and> sess_settings (sess r') = sess_settings (sess r) \<and>
    cl_addr (sess r') = cl_addr (sess r) \<and> (\<exists>ps. sent r' = sent r @ ps) \<and>
    (was_error (sess r) \<longrightarrow> error_code (sess r') = error_code (sess r) \<and> error_message (sess r') = error_message (sess r))"
  using assms
proof (induction rule: sess_reach.induct)
  case (reach_step r r' r'')
  then have "step_rel r' r''" using sess_step_ok sess_reach_inv by blast
  then show ?case using reach_step by (auto simp: step_rel_def was_error_def)
qed simp

section \<open>Retransmissions are bounded\<close>

definition retr_inv :: "run_state \<Rightarrow> bool" where
  "retr_inv r \<longleftrightarrow>
     (let n = unat (retr_count r); m = unat (retransmit_count (sess_settings (sess r)))
      in n \<le> m \<or> (n = m + 1 \<and> stat (sess r) \<in> {error_and_stop, finish}))"

lemma retr_inv_step:
  assumes "run_inv r" "retr_inv r" "retransmit_count (sess_settings (sess r)) < 0xFFFF" "sess_step r r'"
  shows "retr_inv r'"
proof -
  let ?m = "retransmit_count (sess_settings (sess r))"
  obtain e where nf: "stat (sess r) \<noteq> finish" and st: "run_step e r = Inr r'"
    using assms(4) by (auto elim!: sess_stepE simp: is_finished_def)
  have rel: "step_rel r r'" using run_step_ok [OF assms(1) st] by simp
  have m: "unat ?m < 65535" using assms(3) by (simp add: word_less_nat_alt)
  show ?thesis
  proof (cases "stat (sess r) = retransmit")
    case True
    then have n: "unat (retr_count r) \<le> unat ?m" using assms(2) by (auto simp: retr_inv_def Let_def)
    have c: "unat (retr_count r + 1) = unat (retr_count r) + 1"
      using n m by (subst unat_add_lem [THEN iffD1]) auto
    show ?thesis
    proof (cases "retr_count r + 1 > ?m")
      case True
      then have "unat (retr_count r + 1) = unat ?m + 1" using n c by (simp add: word_less_nat_alt)
      moreover have "r' = goto_state error_and_stop (r\<lparr>retr_count := retr_count r + 1\<rparr>)"
        using st \<open>stat (sess r) = retransmit\<close> True
        by (simp add: run_step_def step_retransmit_def get_retransmit_count_def Let_def)
      ultimately show ?thesis
        using \<open>stat (sess r) = retransmit\<close> by (simp add: retr_inv_def goto_state_stat)
    next
      case False
      then show ?thesis
        using rel \<open>stat (sess r) = retransmit\<close> by (simp add: step_rel_def retr_inv_def word_le_nat_alt not_less)
    qed
  next
    case False
    then have "stat (sess r) = error_and_stop \<Longrightarrow> stat (sess r') \<in> {error_and_stop, finish}"
      using rel by (auto simp: step_rel_def)
    then show ?thesis using False rel nf assms(2) by (auto simp: retr_inv_def step_rel_def Let_def)
  qed
qed

lemma retr_inv_reach:
  assumes "sess_reach r r'" "run_inv r" "retr_inv r" "retransmit_count (sess_settings (sess r)) < 0xFFFF"
  shows "retr_inv r'"
  using assms
proof (induction rule: sess_reach.induct)
  case (reach_step r r' r'')
  then have "run_inv r'" "retransmit_count (sess_settings (sess r')) < 0xFFFF"
    using sess_reach_inv reach_kept by auto
  then show ?case using reach_step retr_inv_step by blast
qed

section \<open>Read sessions never throw\<close>

definition read_safe :: "run_state \<Rightarrow> bool" where
  "read_safe r \<longleftrightarrow> run_inv r \<and> stat (sess r) \<notin> {need_init, data_rx, ack_tx} \<and>
     (\<exists>d. file_man (sess r) = Some d \<and> request_type d = srv_read) \<and>
     o_request_type (opts (sess r)) = srv_read \<and> unat (block_size (sess r)) \<le> 65531 \<and>
     timeout (opts (sess r)) < 2 ^ 31 - 1"

lemma dm_read_total: "request_type d = srv_read \<Longrightarrow> \<exists>ret got err d'. dm_read d n p = Inr (ret, got, err, d')"
  by (auto simp: dm_read_def Let_def split: prod.split)

lemma receive_in_ack_rx:
  assumes "sbuf_ok b" "stat s = ack_rx"
  shows "\<exists>res s' b'. receive_no_wait e s b = Inr (res, s', b') \<and> file_man s' = file_man s"
proof (cases "e_rx e")
  case (Rx_errno n)
  then show ?thesis by (simp add: receive_errno)
next
  case (Rx_pkt pkt fr)
  have "file_man s' = file_man s" if "receive_ack s k = (x, s')" for k x s'
    using that by (auto simp: receive_ack_def rx_set_stage_def split: if_splits)
  then show ?thesis
    using assms(2) unfolding receive_pkt_eq [OF assms(1) Rx_pkt] by (auto split: prod.split)
qed

lemma block_size_opts: "opts s' = opts s \<Longrightarrow> block_size s' = block_size s"
  by (simp add: block_size_def)

text \<open>If a step of a safe state returns, the state is safe again, as long as the manager is kept.\<close>

lemma read_safe_keeps:
  assumes "read_safe r" "run_step e r = Inr r'" "stat (sess r') \<notin> {need_init, data_rx, ack_tx}"
    "\<exists>d. file_man (sess r') = Some d \<and> request_type d = srv_read"
  shows "read_safe r'"
proof -
  have inv: "run_inv r" using assms(1) by (simp add: read_safe_def)
  then have "step_rel r r'" "run_inv r'" using run_step_ok assms(2) by blast+
  then show ?thesis
    using assms by (auto simp: read_safe_def step_rel_def block_size_def)
qed

lemma read_safe_data_tx:
  assumes "read_safe r" "stat (sess r) = data_tx"
  shows "\<exists>r'. run_step e r = Inr r' \<and> read_safe r'"
proof -
  obtain d where d: "file_man (sess r) = Some d" "request_type d = srv_read"
    and bs: "unat (block_size (sess r)) \<le> 65531" and ok: "sbuf_ok (local_buf r)"
    using assms(1) by (auto simp: read_safe_def run_inv_def)
  obtain ret got err d' where rd: "dm_read d (unat (block_size (sess r))) (blk_pos (sess r)) = Inr (ret, got, err, d')"
    using dm_read_total [OF d(2)] by blast
  obtain s b where c: "construct_data (sess r) (local_buf r) = Inr (s, b)" and fm: "file_man s = Some d'"
    and st: "stat s = data_tx"
    using construct_data_eq [OF ok d(1) bs rd] assms(2) by (auto simp: Let_def split: if_splits)
  obtain r' where r': "run_step e r = Inr r'" "stat (sess r') \<in> {ack_rx, data_tx, error_and_stop}"
    "file_man (sess r') = Some d'"
    using assms(2) c fm st by (simp add: run_step_def step_data_tx_def Let_def goto_state_stat)
  have "read_safe r'"
    by (rule read_safe_keeps [OF assms(1) r'(1)])
      (use r'(2,3) dm_read_bounds(3) [OF rd] d(2) in auto)
  with r'(1) show ?thesis by blast
qed

lemma read_safe_ack_rx:
  assumes "read_safe r" "stat (sess r) = ack_rx"
  shows "\<exists>r'. run_step e r = Inr r' \<and> read_safe r'"
proof -
  have inv: "run_inv r" and t: "timeout (opts (sess r)) < 2 ^ 31 - 1" using assms(1) by (auto simp: read_safe_def)
  have ok: "sbuf_ok (local_buf r)" by (rule run_invD(1) [OF inv])
  obtain res s b where c: "receive_no_wait e (sess r) (local_buf r) = Inr (res, s, b)"
    and fm: "file_man s = file_man (sess r)"
    using receive_in_ack_rx [OF ok assms(2)] by blast
  have s: "stat s = ack_rx" "opts s = opts (sess r)"
    using receive_frame [OF ok c] assms(2) by (auto simp: same_session_def)
  have "\<exists>r'. run_step e r = Inr r' \<and> stat (sess r') \<in> {ack_rx, data_tx, retransmit, finish} \<and>
      file_man (sess r') = file_man (sess r)"
    using assms(2) c fm s t
    by (cases res) (auto simp: run_step_def step_ack_rx_def poll_timeout_def timeout_pass_def Let_def goto_state_stat)
  then obtain r' where r': "run_step e r = Inr r'" "stat (sess r') \<in> {ack_rx, data_tx, retransmit, finish}"
    "file_man (sess r') = file_man (sess r)" by blast
  have "read_safe r'"
    by (rule read_safe_keeps [OF assms(1) r'(1)]) (use r'(2,3) assms(1) in \<open>auto simp: read_safe_def\<close>)
  with r'(1) show ?thesis by blast
qed

lemma read_safe_other:
  assumes "read_safe r" "stat (sess r) \<in> {error_and_stop, ack_options, retransmit, finish}"
  shows "\<exists>r'. run_step e r = Inr r' \<and> read_safe r'"
proof -
  note inv = run_invD [of r]
  have ri: "run_inv r" and rq: "o_request_type (opts (sess r)) = srv_read" using assms(1) by (auto simp: read_safe_def)
  have m: "length (error_message (sess r)) \<le> 65530" using inv(4) [OF ri] by simp
  have "\<exists>r'. run_step e r = Inr r' \<and> stat (sess r') \<in> {finish, ack_rx, data_tx, error_and_stop} \<and>
      file_man (sess r') = file_man (sess r)"
    using assms(2)
  proof (elim insertE emptyE)
    assume "stat (sess r) = error_and_stop"
    then show ?thesis
      using construct_error_eq [OF inv(1) [OF ri] _ m]
      by (simp add: run_step_def step_error_and_stop_def goto_state_stat)
  next
    assume "stat (sess r) = ack_options"
    then show ?thesis
      using construct_opt_reply_eq(1) [OF inv(1) [OF ri] inv(2) [OF ri]] rq
      by (simp add: run_step_def step_ack_options_def Let_def goto_state_stat)
  qed (use rq in \<open>simp_all add: run_step_def step_retransmit_def Let_def goto_state_stat\<close>)
  then obtain r' where r': "run_step e r = Inr r'" "stat (sess r') \<in> {finish, ack_rx, data_tx, error_and_stop}"
    "file_man (sess r') = file_man (sess r)" by blast
  have "read_safe r'"
    by (rule read_safe_keeps [OF assms(1) r'(1)]) (use r'(2,3) assms(1) in \<open>auto simp: read_safe_def\<close>)
  with r'(1) show ?thesis by blast
qed

lemma read_safe_step: "read_safe r \<Longrightarrow> \<exists>r'. run_step e r = Inr r' \<and> read_safe r'"
  using read_safe_data_tx read_safe_ack_rx read_safe_other
  by (cases "stat (sess r)") (auto simp: read_safe_def)

lemma read_safe_loop: "read_safe r \<Longrightarrow> \<exists>r'. run_loop es r = Inr r' \<and> read_safe r'"
proof (induction es arbitrary: r)
  case (Cons e es)
  show ?case
  proof (cases "is_finished (sess r)")
    case False
    obtain r1 where "run_step e r = Inr r1" "read_safe r1" using read_safe_step Cons.prems by blast
    then show ?thesis using Cons.IH False by simp
  qed (use Cons.prems in simp)
qed simp

section \<open>Properties\<close>

lemma prepare_facts:
  assumes "prepare (session_new st) ad pkt n = Inr (ret, s)"
  shows "stat s = need_init" "error_message s = []" "error_code s = 0" "opts_ok (opts s)" "cl_addr s = ad"
    "sess_settings s = st" "file_man s = None"
  using assms
  by (auto simp: prepare_def session_new_def Let_def buffer_parse_opts_ok split: sum.splits)

lemma prepared_run_inv:
  assumes "what_ok fs" "prepare (session_new st) ad pkt n = Inr (ret, s)"
  shows "run_inv (run_start fs s)"
  using run_inv_start [OF assms(1)] prepare_facts [OF assms(2)] by simp

text \<open>A client, a read request of that client and the session prepared for it, for examples.\<close>

definition demo_client :: addr where
  "demo_client = set_port_u16 (set_addr_in addr_new [CHR 0x0A, NUL, NUL, CHR 0x02]) 1069"

definition demo_sett :: settings where
  "demo_sett = settings_new\<lparr>root_dir := ''/r''\<rparr>"

definition demo_request :: "(string \<times> string) list \<Rightarrow> byte list" where
  "demo_request os = request_bytes 1 ''fw.bin'' ''octet'' os"

definition demo_prepared :: "byte list \<Rightarrow> session" where
  "demo_prepared pkt =
     (case prepare (session_new demo_sett) demo_client pkt (length pkt) of
        Inl _ \<Rightarrow> session_new demo_sett
      | Inr (_, s) \<Rightarrow> s)"

lemma demo_prepared:
  assumes "case prepare (session_new demo_sett) demo_client pkt (length pkt) of Inl _ \<Rightarrow> False | Inr (ret, _) \<Rightarrow> ret"
  shows "prepare (session_new demo_sett) demo_client pkt (length pkt) = Inr (True, demo_prepared pkt)"
  using assms by (auto simp: demo_prepared_def split: sum.splits)

lemma demo_read_prepared:
  "prepare (session_new demo_sett) demo_client (demo_request []) (length (demo_request [])) =
     Inr (True, demo_prepared (demo_request []))"
  by (rule demo_prepared) code_simp

lemma what_ok_demo: "what_ok demo_read_fs"
  by (simp add: what_ok_def demo_read_fs_def plain_fs_def)

text \<open>
  C11. Whatever a client and the system do, in every state a session can reach after a request was
  accepted: the packet buffer keeps its size and its data stays inside it, the negotiated options and
  the client address are those of the request, and a session under way has a data manager.
\<close>

theorem session_invariant:
  assumes "what_ok fs" "prepare (session_new st) ad pkt n = Inr (True, s)" "sess_reach (run_start fs s) r"
  shows "length (sb_buf (local_buf r)) = 0xFFFF \<and> data_size (local_buf r) \<le> 0xFFFF \<and>
    opts (sess r) = opts s \<and> cl_addr (sess r) = ad \<and> sess_settings (sess r) = st \<and>
    (stat (sess r) \<notin> {need_init, finish} \<longrightarrow> file_man (sess r) \<noteq> None)"
proof -
  have i: "run_inv (run_start fs s)" by (rule prepared_run_inv [OF assms(1,2)])
  note r = run_invD [OF sess_reach_inv [OF assms(3) i]] and k = reach_kept [OF assms(3) i]
  show ?thesis
    using r(1,5) k prepare_facts [OF assms(2)] by (simp add: run_start_def sbuf_ok_def smbufex_inv_def)
qed

theorem session_invariant_witness:
  "\<exists>r. sess_reach (run_start demo_read_fs (demo_prepared (demo_request []))) r \<and>
     length (sb_buf (local_buf r)) = 0xFFFF \<and> cl_addr (sess r) = demo_client"
  using session_invariant [OF what_ok_demo demo_read_prepared reach_refl] reach_refl by blast


text \<open>The inputs of an iteration in which nothing arrives and every call succeeds.\<close>

definition quiet :: "int \<Rightarrow> env" where
  "quiet t = \<lparr>e_time = t, e_rx = Rx_errno EAGAIN, e_sendto = 0, e_dev = True, e_socket = 5, e_bind = 0\<rparr>"

text \<open>The first iteration of the example session.\<close>

lemma demo_init:
  "\<exists>s'. sess_init (quiet 0) demo_read_fs ((demo_prepared (demo_request []))\<lparr>stage := 0\<rparr>) = Inr (True, s', demo_read_fs) \<and>
     \<not> was_error s' \<and> stat s' = need_init \<and> (\<exists>d. file_man s' = Some d \<and> dm_ready d \<and> dm_source d = ''abc'')"
proof -
  let ?i = "sess_init (quiet 0) demo_read_fs ((demo_prepared (demo_request []))\<lparr>stage := 0\<rparr>)"
  have "case ?i of Inl _ \<Rightarrow> False | Inr (ret, s', _) \<Rightarrow> ret \<and> \<not> was_error s' \<and> stat s' = need_init \<and>
      (case file_man s' of None \<Rightarrow> False | Some d \<Rightarrow> dm_ready d \<and> dm_source d = ''abc'')" by code_simp
  then obtain s' fs' where i: "?i = Inr (True, s', fs')" "\<not> was_error s'" "stat s' = need_init"
    "\<exists>d. file_man s' = Some d \<and> dm_ready d \<and> dm_source d = ''abc''"
    by (auto split: sum.splits option.splits)
  have "o_request_type (opts (demo_prepared (demo_request []))) = srv_read" by code_simp
  then have "fs' = demo_read_fs"
    using i(1) by (auto simp: sess_init_def quiet_def dm_init_def Let_def split: sum.splits)
  with i show ?thesis by auto
qed

lemma demo_first_step:
  "\<exists>r0. run_step (quiet 0) (run_start demo_read_fs (demo_prepared (demo_request []))) = Inr r0 \<and>
     stat (sess r0) = ack_options"
proof -
  let ?r = "run_start demo_read_fs (demo_prepared (demo_request []))"
  have st: "stat (sess ?r) = need_init"
    using prepare_facts(1) [OF demo_read_prepared] by (simp add: run_start_def)
  show ?thesis
    using demo_init st by (auto simp: run_step_def step_need_init_def run_start_def goto_state_stat Let_def)
qed


text \<open>
  C13. The number of retransmissions is bounded by the configured count, if that is less than 65535:
  the counter never exceeds it by more than one, and when it does the session is on its way out.
\<close>

theorem retransmissions_bounded:
  assumes "what_ok fs" "prepare (session_new st) ad pkt n = Inr (True, s)" "retransmit_count st < 0xFFFF"
    "sess_reach (run_start fs s) r"
  shows "unat (retr_count r) \<le> unat (retransmit_count st) \<or>
    unat (retr_count r) = unat (retransmit_count st) + 1 \<and> stat (sess r) \<in> {error_and_stop, finish}"
proof -
  have i: "run_inv (run_start fs s)" by (rule prepared_run_inv [OF assms(1,2)])
  have "retr_inv (run_start fs s)" by (simp add: retr_inv_def run_start_def)
  moreover have "sess_settings (sess (run_start fs s)) = st"
    using prepare_facts(6) [OF assms(2)] by (simp add: run_start_def)
  ultimately have "retr_inv r" using retr_inv_reach [OF assms(4) i] assms(3) by simp
  moreover have "sess_settings (sess r) = st"
    using reach_kept [OF assms(4) i] \<open>sess_settings (sess (run_start fs s)) = st\<close> by simp
  ultimately show ?thesis by (simp add: retr_inv_def Let_def)
qed

theorem retransmissions_bounded_witness:
  "unat (retr_count (run_start demo_read_fs (demo_prepared (demo_request [])))) \<le> 3"
proof -
  have "retransmit_count demo_sett = 3" by code_simp
  then show ?thesis
    using retransmissions_bounded [OF what_ok_demo demo_read_prepared _ reach_refl]
    by (simp add: run_start_def)
qed

lemma dm_close_total: "\<exists>d' fs' calls. dm_close fs d True = Inr (d', fs', calls)"
  by (auto simp: dm_close_def ofs_close_def Let_def)

lemma sess_init_request_type:
  assumes "sess_init e fs s = Inr (True, s', fs')" "what_ok fs"
  shows "\<exists>d. file_man s' = Some d \<and> request_type d = o_request_type (opts s)"
  using assms
  by (auto simp: sess_init_def Let_def split: sum.splits if_splits dest: dm_init_frame(3))

lemma first_step_read_safe:
  assumes "run_inv r" "stat (sess r) = need_init" "o_request_type (opts (sess r)) = srv_read"
    "unat (block_size (sess r)) \<le> 65531" "timeout (opts (sess r)) < 2 ^ 31 - 1"
    "run_step e r = Inr r'" "stat (sess r') \<noteq> finish"
  shows "read_safe r'"
proof -
  have st: "step_need_init e r = Inr r'" using assms(2,6) by (simp add: run_step_def)
  obtain ret s fs where i: "sess_init e (world r) (sess r) = Inr (ret, s, fs)"
    using st by (auto simp: step_need_init_def split: sum.splits)
  note f = sess_init_frame [OF i run_invD(3) [OF assms(1)]]
  have s: "stat s = need_init" using f(1) assms(2) by (simp add: same_session_def)
  have ret: "ret" using st i s assms(7) by (auto simp: step_need_init_def Let_def goto_state_stat split: if_splits)
  obtain d where d: "file_man s = Some d" "request_type d = srv_read"
    using sess_init_request_type [OF i [unfolded eqTrueI [OF ret]] run_invD(3) [OF assms(1)]] assms(3) by auto
  have r': "stat (sess r') \<in> {error_and_stop, ack_options}" "file_man (sess r') = Some d"
    using st i s ret d(1) by (auto simp: step_need_init_def Let_def goto_state_stat split: if_splits)
  have "step_rel r r'" "run_inv r'" using run_step_ok [OF assms(1,6)] by auto
  then show ?thesis using r' d(2) assms(3-5) by (auto simp: read_safe_def step_rel_def block_size_def)
qed



end
