(* ===== verification/Srv.thy ===== *)
theory Srv
  imports SessionInv
begin

text \<open>
  Class \<open>Srv\<close> (\<open>tftpSrv.h\<close>, \<open>tftpSrv.cpp\<close>): the listening socket, the list of sessions and the
  main loop. The server and its session threads run interleaved. \<open>srv_step\<close> is one step of any of
  them: the main thread receives (\<open>main_recv\<close>) or looks for a finished session (\<open>main_reap\<close>); a
  session thread runs one iteration of its loop or the end of \<open>run\<close>. All sessions work on one
  shared file system. An exception in any thread ends the whole process.
\<close>

section \<open>State\<close>

record thread =
  t_run :: run_state
  t_ended :: bool

datatype main_pc = At_recv | At_reap | Main_returned

record srv =
  sv_settings :: settings
  sv_socket :: int
  sv_stop :: bool
  sessions :: "thread list"
  client_addr :: addr
  pkt_buf :: buf
  main_at :: main_pc
  shared_fs :: filesys

text \<open>\<open>client_addr\<close> and \<open>pkt_buf\<close> are local to the main loop; they get their values there.\<close>

definition srv_new :: "settings \<Rightarrow> filesys \<Rightarrow> srv" where
  "srv_new s fs =
     \<lparr>sv_settings = s, sv_socket = - 1, sv_stop = False, sessions = [], client_addr = addr_new,
      pkt_buf = replicate 0xFFFF NUL, main_at = Main_returned, shared_fs = fs\<rparr>"

section \<open>Socket and start\<close>

definition srv_socket_close :: "srv \<Rightarrow> srv" where
  "srv_socket_close v = v\<lparr>sv_socket := - 1\<rparr>"

text \<open>The arguments are the results of \<open>socket\<close> and \<open>bind\<close>.\<close>

definition srv_socket_open :: "int \<Rightarrow> int \<Rightarrow> srv \<Rightarrow> bool \<times> srv" where
  "srv_socket_open sock_res bind_res v =
     (let v1 = v\<lparr>sv_socket := sock_res\<rparr>
      in if sock_res < 0 then (False, v1)
         else if bind_res \<noteq> 0 then (False, srv_socket_close v1)
         else (True, v1))"

definition srv_init :: "int \<Rightarrow> int \<Rightarrow> srv \<Rightarrow> bool \<times> srv" where
  "srv_init sock_res bind_res v =
     srv_socket_open sock_res bind_res (if sv_socket v \<ge> 0 then srv_socket_close v else v)"

definition srv_stop :: "srv \<Rightarrow> srv" where
  "srv_stop v = v\<lparr>sv_stop := True\<rparr>"

text \<open>The part of \<open>main_loop\<close> before its loop.\<close>

definition main_enter :: "int \<Rightarrow> int \<Rightarrow> srv \<Rightarrow> srv" where
  "main_enter sock_res bind_res v =
     (let (ok, v1) = (if sv_socket v = 0 then srv_init sock_res bind_res v else (True, v))
      in if \<not> ok then v1\<lparr>main_at := Main_returned\<rparr>
         else v1\<lparr>sv_stop := False, client_addr := addr_new, pkt_buf := replicate 0xFFFF NUL, main_at := At_recv\<rparr>)"

section \<open>The main loop\<close>

text \<open>
  \<open>recvfrom\<close>: the size, the buffer and the sender's address. With no packet (\<open>Rx_errno\<close>) the size
  is negative and nothing is stored.
\<close>

definition srv_recvfrom :: "rx_result \<Rightarrow> srv \<Rightarrow> int \<times> srv" where
  "srv_recvfrom rx v =
     (let v1 = v\<lparr>client_addr := (client_addr v)\<lparr>a_data_size := length (a_bytes (client_addr v))\<rparr>\<rparr>
      in case rx of
           Rx_errno _ \<Rightarrow> (- 1, v1)
         | Rx_pkt pkt fr \<Rightarrow>
             (let data = take (length (pkt_buf v1)) pkt;
                  ad = client_addr v1;
                  sa = take (a_data_size ad) fr
              in (int (length data),
                  v1\<lparr>pkt_buf := put_at (pkt_buf v1) 0 data,
                     client_addr := ad\<lparr>a_bytes := put_at (a_bytes ad) 0 sa, a_data_size := length fr\<rparr>\<rparr>)))"

text \<open>The first part of an iteration: a request makes a session, whose thread starts.\<close>

definition main_recv :: "rx_result \<Rightarrow> srv \<Rightarrow> srv res" where
  "main_recv rx v =
     (if sv_stop v then Inr (v\<lparr>main_at := Main_returned\<rparr>)
      else
        (let (bsize, v1) = srv_recvfrom rx v
         in if bsize \<ge> 9 then
              (case prepare (session_new (sv_settings v1)) (client_addr v1) (pkt_buf v1) (nat bsize) of
                 Inl e \<Rightarrow> Inl e
               | Inr (ret, sss) \<Rightarrow>
                   (let new_session = fst (session_move (session_new settings_new) sss)
                    in Inr (if ret
                            then v1\<lparr>sessions := sessions v1 @ [\<lparr>t_run = run_start (shared_fs v1) new_session, t_ended = False\<rparr>],
                                   main_at := At_reap\<rparr>
                            else v1\<lparr>main_at := At_reap\<rparr>)))
            else Inr (v1\<lparr>main_at := At_reap\<rparr>)))"

text \<open>
  The second part: the first finished session is joined and erased. \<open>join\<close> waits for the thread;
  while it has not ended the main thread cannot go on, which is \<open>None\<close>.
\<close>

fun reap :: "thread list \<Rightarrow> thread list option" where
  "reap [] = Some []"
| "reap (t # ts) =
     (if is_finished (sess (t_run t)) then (if t_ended t then Some ts else None)
      else map_option (\<lambda>ts'. t # ts') (reap ts))"

definition main_reap :: "srv \<Rightarrow> srv option" where
  "main_reap v = map_option (\<lambda>ts. v\<lparr>sessions := ts, main_at := At_recv\<rparr>) (reap (sessions v))"

section \<open>The session threads\<close>

text \<open>One iteration of the loop of a session, on the shared file system.\<close>

definition thread_iterate :: "env \<Rightarrow> filesys \<Rightarrow> thread \<Rightarrow> (thread \<times> filesys) res" where
  "thread_iterate e fs t =
     (case run_step e ((t_run t)\<lparr>world := fs\<rparr>) of
        Inl x \<Rightarrow> Inl x
      | Inr r \<Rightarrow> Inr (t\<lparr>t_run := r\<rparr>, world r))"

definition thread_end :: "bool \<Rightarrow> filesys \<Rightarrow> thread \<Rightarrow> (thread \<times> filesys) res" where
  "thread_end dev_ok fs t =
     (case run_end dev_ok ((t_run t)\<lparr>world := fs\<rparr>) of
        Inl x \<Rightarrow> Inl x
      | Inr (r, _) \<Rightarrow> Inr (t\<lparr>t_run := r, t_ended := True\<rparr>, world r))"

definition set_thread :: "srv \<Rightarrow> nat \<Rightarrow> thread \<times> filesys \<Rightarrow> srv" where
  "set_thread v i tf = v\<lparr>sessions := (sessions v)[i := fst tf], shared_fs := snd tf\<rparr>"

inductive srv_step :: "srv \<Rightarrow> srv \<Rightarrow> bool" where
  recv: "main_at v = At_recv \<Longrightarrow> main_recv rx v = Inr v' \<Longrightarrow> srv_step v v'"
| reap_one: "main_at v = At_reap \<Longrightarrow> main_reap v = Some v' \<Longrightarrow> srv_step v v'"
| thread_loop: "i < length (sessions v) \<Longrightarrow> \<not> is_finished (sess (t_run (sessions v ! i))) \<Longrightarrow>
    thread_iterate e (shared_fs v) (sessions v ! i) = Inr tf \<Longrightarrow> srv_step v (set_thread v i tf)"
| thread_exit: "i < length (sessions v) \<Longrightarrow> is_finished (sess (t_run (sessions v ! i))) \<Longrightarrow>
    \<not> t_ended (sessions v ! i) \<Longrightarrow>
    thread_end dev_ok (shared_fs v) (sessions v ! i) = Inr tf \<Longrightarrow> srv_step v (set_thread v i tf)"
| stopped: "srv_step v (srv_stop v)"

inductive srv_reach :: "srv \<Rightarrow> srv \<Rightarrow> bool" where
  srv_refl: "srv_reach v v"
| srv_next: "srv_reach v v' \<Longrightarrow> srv_step v' v'' \<Longrightarrow> srv_reach v v''"

section \<open>Invariant\<close>

definition thread_ok :: "filesys \<Rightarrow> settings \<Rightarrow> thread \<Rightarrow> bool" where
  "thread_ok fs st t \<longleftrightarrow> run_inv ((t_run t)\<lparr>world := fs\<rparr>) \<and> sess_settings (sess (t_run t)) = st"

definition srv_inv :: "srv \<Rightarrow> bool" where
  "srv_inv v \<longleftrightarrow> what_ok (shared_fs v) \<and> length (pkt_buf v) = 0xFFFF \<and>
     length (a_bytes (client_addr v)) = max_sockaddr_size \<and>
     (\<forall>t \<in> set (sessions v). thread_ok (shared_fs v) (sv_settings v) t)"

lemma thread_ok_world:
  "thread_ok fs st t \<Longrightarrow> what_ok fs' \<Longrightarrow> thread_ok fs' st t"
  by (simp add: thread_ok_def run_inv_def)

lemma srv_inv_new: "what_ok fs \<Longrightarrow> srv_inv (srv_new s fs)"
  by (simp add: srv_inv_def srv_new_def addr_new_def addr_clear_def)

lemma srv_inv_enter: "srv_inv v \<Longrightarrow> srv_inv (main_enter x y v)"
  by (auto simp: srv_inv_def main_enter_def srv_init_def srv_socket_open_def srv_socket_close_def
      addr_new_def addr_clear_def Let_def split: prod.split)

lemma srv_recvfrom_frame:
  assumes "srv_recvfrom rx v = (n, v1)" "srv_inv v"
  shows "srv_inv v1" "sessions v1 = sessions v" "sv_settings v1 = sv_settings v" "shared_fs v1 = shared_fs v"
    "sv_stop v1 = sv_stop v" "sv_socket v1 = sv_socket v"
  using assms by (auto simp: srv_recvfrom_def srv_inv_def Let_def split: rx_result.splits)

lemma session_move_all: "fst (session_move this val) = val"
  by (simp add: session_move_def)

text \<open>What receiving does to the list of sessions.\<close>

lemma main_recv_cases:
  assumes "main_recv rx v = Inr v'" "srv_inv v"
  shows "srv_inv v' \<and> sv_settings v' = sv_settings v \<and> shared_fs v' = shared_fs v \<and>
    (sessions v' = sessions v \<or>
     (\<exists>s. sessions v' = sessions v @ [\<lparr>t_run = run_start (shared_fs v) s, t_ended = False\<rparr>] \<and>
        stat s = need_init \<and> opts_ok (opts s) \<and> sess_settings s = sv_settings v))"
proof (cases "sv_stop v")
  case False
  obtain n v1 where rc: "srv_recvfrom rx v = (n, v1)" by fastforce
  note f = srv_recvfrom_frame [OF rc assms(2)]
  show ?thesis
  proof (cases "n \<ge> 9")
    case True
    then obtain ret s where p: "prepare (session_new (sv_settings v1)) (client_addr v1) (pkt_buf v1) (nat n) = Inr (ret, s)"
      using assms(1) False rc by (auto simp: main_recv_def split: sum.splits)
    have v': "v' = (if ret then v1\<lparr>sessions := sessions v1 @ [\<lparr>t_run = run_start (shared_fs v1) s, t_ended = False\<rparr>],
        main_at := At_reap\<rparr> else v1\<lparr>main_at := At_reap\<rparr>)"
      using assms(1) False rc True p by (simp add: main_recv_def session_move_all)
    note pf = prepare_facts [OF p]
    have "run_inv (run_start (shared_fs v1) s)"
      by (rule run_inv_start) (use f(1) pf in \<open>simp_all add: srv_inv_def\<close>)
    then have "thread_ok (shared_fs v1) (sv_settings v1) \<lparr>t_run = run_start (shared_fs v1) s, t_ended = False\<rparr>"
      using pf by (simp add: thread_ok_def run_start_def)
    then show ?thesis using f pf by (auto simp: v' srv_inv_def)
  next
    case False
    then show ?thesis using assms(1) \<open>\<not> sv_stop v\<close> rc f by (auto simp: main_recv_def srv_inv_def)
  qed
qed (use assms in \<open>auto simp: main_recv_def srv_inv_def\<close>)

text \<open>What \<open>reap\<close> takes out: the first finished session, if there is one, and only when its thread
  has ended.\<close>

lemma reap_cases:
  "reap ts = Some ts' \<Longrightarrow>
     (ts' = ts \<and> (\<forall>t \<in> set ts. \<not> is_finished (sess (t_run t)))) \<or>
     (\<exists>a t b. ts = a @ t # b \<and> ts' = a @ b \<and> is_finished (sess (t_run t)) \<and> t_ended t \<and>
        (\<forall>u \<in> set a. \<not> is_finished (sess (t_run u))))"
proof (induction ts arbitrary: ts')
  case (Cons t ts)
  show ?case
  proof (cases "is_finished (sess (t_run t))")
    case True
    then have "ts' = ts" "t_ended t" using Cons.prems by (auto split: if_splits)
    then show ?thesis
      using True by (intro disjI2 exI [of _ "[]"] exI [of _ t] exI [of _ ts]) simp
  next
    case False
    then obtain us where us: "reap ts = Some us" "ts' = t # us" using Cons.prems by auto
    from Cons.IH [OF us(1)] show ?thesis
    proof
      assume "us = ts \<and> (\<forall>t \<in> set ts. \<not> is_finished (sess (t_run t)))"
      then show ?thesis using False us(2) by simp
    next
      assume "\<exists>a t b. ts = a @ t # b \<and> us = a @ b \<and> is_finished (sess (t_run t)) \<and> t_ended t \<and>
        (\<forall>u \<in> set a. \<not> is_finished (sess (t_run u)))"
      then obtain a u b where "ts = a @ u # b" "us = a @ b" "is_finished (sess (t_run u))" "t_ended u"
        "\<forall>x \<in> set a. \<not> is_finished (sess (t_run x))" by blast
      then show ?thesis
        using us(2) False by (intro disjI2 exI [of _ "t # a"] exI [of _ u] exI [of _ b]) simp
    qed
  qed
qed simp

lemma reap_subset: "reap ts = Some ts' \<Longrightarrow> set ts' \<subseteq> set ts"
  using reap_cases by fastforce

lemma dm_close_what:
  assumes "dm_close fs d ok = Inr (d', fs', calls)" "what_ok fs"
  shows "what_ok fs'"
  using assms by (auto simp: dm_close_def Let_def fs_set_def what_ok_def split: sum.splits if_splits)

lemma thread_iterate_ok:
  assumes "thread_iterate e fs t = Inr (t', fs')" "thread_ok fs st t"
  shows "thread_ok fs' st t' \<and> what_ok fs' \<and> t_ended t' = t_ended t"
proof -
  obtain r where r: "run_step e ((t_run t)\<lparr>world := fs\<rparr>) = Inr r" "t' = t\<lparr>t_run := r\<rparr>" "fs' = world r"
    using assms(1) by (auto simp: thread_iterate_def split: sum.splits)
  have i: "run_inv ((t_run t)\<lparr>world := fs\<rparr>)" using assms(2) by (simp add: thread_ok_def)
  have "step_rel ((t_run t)\<lparr>world := fs\<rparr>) r" "run_inv r" using run_step_ok [OF i r(1)] by auto
  then show ?thesis using r assms(2) by (simp add: thread_ok_def step_rel_def run_inv_def)
qed

lemma thread_end_ok:
  assumes "thread_end ok fs t = Inr (t', fs')" "thread_ok fs st t" "is_finished (sess (t_run t))"
  shows "thread_ok fs' st t' \<and> what_ok fs' \<and> t_ended t'"
  using assms
  by (auto simp: thread_end_def run_end_def thread_ok_def run_inv_def is_finished_def under_way_def
      split: sum.splits option.splits dest: dm_close_what)

lemma srv_inv_set_thread:
  assumes "srv_inv v" "thread_ok (snd tf) (sv_settings v) (fst tf)" "what_ok (snd tf)"
  shows "srv_inv (set_thread v i tf)"
proof -
  have "thread_ok (snd tf) (sv_settings v) t" if "t \<in> set ((sessions v)[i := fst tf])" for t
  proof -
    have "t = fst tf \<or> t \<in> set (sessions v)" using that set_update_subset_insert by fastforce
    then show ?thesis using assms thread_ok_world by (auto simp: srv_inv_def)
  qed
  then show ?thesis using assms by (simp add: srv_inv_def set_thread_def)
qed

lemma srv_inv_step:
  assumes "srv_step v v'" "srv_inv v"
  shows "srv_inv v' \<and> sv_settings v' = sv_settings v"
  using assms
proof (induction rule: srv_step.induct)
  case (recv v rx v')
  then show ?case using main_recv_cases by blast
next
  case (reap_one v v')
  then show ?case by (auto simp: main_reap_def srv_inv_def dest!: reap_subset)
next
  case (thread_loop i v e tf)
  then have "thread_ok (shared_fs v) (sv_settings v) (sessions v ! i)" by (simp add: srv_inv_def)
  then show ?case
    using thread_loop thread_iterate_ok srv_inv_set_thread by (cases tf) (fastforce simp: set_thread_def)
next
  case (thread_exit i v ok tf)
  then have "thread_ok (shared_fs v) (sv_settings v) (sessions v ! i)" by (simp add: srv_inv_def)
  then show ?case
    using thread_exit thread_end_ok srv_inv_set_thread by (cases tf) (fastforce simp: set_thread_def)
qed (simp add: srv_stop_def srv_inv_def)

lemma srv_inv_reach: "srv_reach v v' \<Longrightarrow> srv_inv v \<Longrightarrow> srv_inv v' \<and> sv_settings v' = sv_settings v"
  by (induction rule: srv_reach.induct) (auto dest: srv_inv_step)

lemma srv_start_inv: "what_ok fs \<Longrightarrow> srv_inv (main_enter x y (srv_new st fs))"
  by (intro srv_inv_enter srv_inv_new)

lemma srv_start_settings: "sv_settings (main_enter x y (srv_new st fs)) = st"
  by (simp add: main_enter_def srv_new_def)

section \<open>Properties\<close>

text \<open>
  C14. Sessions do not disturb each other: in every state the server can reach, with its threads
  interleaved in any way and any packets received, the receive buffer keeps its size and every
  session has a well-formed packet buffer, the settings of the server, options in range, and a data
  manager while it is under way.
\<close>

theorem server_invariant:
  assumes "what_ok fs" "srv_reach (main_enter x y (srv_new st fs)) v" "t \<in> set (sessions v)"
  shows "length (pkt_buf v) = 0xFFFF \<and> length (sb_buf (local_buf (t_run t))) = 0xFFFF \<and>
    data_size (local_buf (t_run t)) \<le> 0xFFFF \<and> sess_settings (sess (t_run t)) = st \<and>
    opts_ok (opts (sess (t_run t))) \<and>
    (stat (sess (t_run t)) \<notin> {need_init, finish} \<longrightarrow> file_man (sess (t_run t)) \<noteq> None)"
proof -
  have i: "srv_inv v" "sv_settings v = st"
    using srv_inv_reach [OF assms(2) srv_start_inv [OF assms(1)]] srv_start_settings by auto
  then have ok: "thread_ok (shared_fs v) st t" using assms(3) by (simp add: srv_inv_def)
  then have r: "run_inv ((t_run t)\<lparr>world := shared_fs v\<rparr>)" by (simp add: thread_ok_def)
  show ?thesis
    using i ok run_invD [OF r] by (simp add: srv_inv_def thread_ok_def sbuf_ok_def smbufex_inv_def)
qed

text \<open>The number of sessions that are finished.\<close>

definition fin :: "thread \<Rightarrow> bool" where
  "fin t \<longleftrightarrow> is_finished (sess (t_run t))"

lemma reap_one_less:
  assumes "\<forall>t \<in> set ts. fin t \<longrightarrow> t_ended t"
  shows "\<exists>ts'. reap ts = Some ts' \<and> filter (\<lambda>t. \<not> fin t) ts' = filter (\<lambda>t. \<not> fin t) ts \<and>
    length (filter fin ts') = length (filter fin ts) - 1 \<and> set ts' \<subseteq> set ts"
  using assms by (induction ts) (auto simp: fin_def)

fun reap_times :: "nat \<Rightarrow> thread list \<Rightarrow> thread list option" where
  "reap_times 0 ts = Some ts"
| "reap_times (Suc n) ts = (case reap ts of None \<Rightarrow> None | Some ts' \<Rightarrow> reap_times n ts')"

lemma reap_all:
  "\<forall>t \<in> set ts. fin t \<longrightarrow> t_ended t \<Longrightarrow> length (filter fin ts) = n \<Longrightarrow>
     reap_times n ts = Some (filter (\<lambda>t. \<not> fin t) ts)"
proof (induction n arbitrary: ts)
  case 0
  then show ?case by (simp add: filter_empty_conv filter_id_conv)
next
  case (Suc n)
  obtain ts' where ts': "reap ts = Some ts'" "filter (\<lambda>t. \<not> fin t) ts' = filter (\<lambda>t. \<not> fin t) ts"
    "length (filter fin ts') = length (filter fin ts) - 1" "set ts' \<subseteq> set ts"
    using reap_one_less [OF Suc.prems(1)] by blast
  then show ?case using Suc.IH [of ts'] Suc.prems by auto
qed


definition demo_thread :: "state \<Rightarrow> thread" where
  "demo_thread st = \<lparr>t_run = run_start demo_read_fs ((session_new demo_sett)\<lparr>stat := st\<rparr>), t_ended = (st = finish)\<rparr>"


section \<open>Requests\<close>

text \<open>A packet in the receive buffer.\<close>

lemma recv_request:
  assumes "srv_inv v" "length pkt \<le> 0xFFFF" "length fr \<le> max_sockaddr_size"
  shows "\<exists>v1 rest. srv_recvfrom (Rx_pkt pkt fr) v = (int (length pkt), v1) \<and> pkt_buf v1 = pkt @ rest \<and>
    length (pkt_buf v1) = 0xFFFF \<and> a_bytes (client_addr v1) = put_at (a_bytes (client_addr v)) 0 fr \<and>
    v1 = v\<lparr>pkt_buf := pkt_buf v1, client_addr := client_addr v1\<rparr>"
  using assms
  by (auto simp: srv_recvfrom_def srv_inv_def Let_def put_at_def)

lemma main_recv_prepare:
  assumes "srv_inv v" "\<not> sv_stop v" "9 \<le> length pkt" "length pkt \<le> 0xFFFF" "length fr \<le> max_sockaddr_size"
  obtains v1 rest where "pkt_buf v1 = pkt @ rest" "vec_ok (pkt @ rest)"
    "a_bytes (client_addr v1) = put_at (a_bytes (client_addr v)) 0 fr"
    "v1 = v\<lparr>pkt_buf := pkt_buf v1, client_addr := client_addr v1\<rparr>"
    "main_recv (Rx_pkt pkt fr) v =
      (case prepare (session_new (sv_settings v)) (client_addr v1) (pkt @ rest) (length pkt) of
         Inl e \<Rightarrow> Inl e
       | Inr (ret, s) \<Rightarrow>
           Inr (if ret
                then v1\<lparr>sessions := sessions v @ [\<lparr>t_run = run_start (shared_fs v) s, t_ended = False\<rparr>], main_at := At_reap\<rparr>
                else v1\<lparr>main_at := At_reap\<rparr>))"
proof -
  obtain v1 rest where rc: "srv_recvfrom (Rx_pkt pkt fr) v = (int (length pkt), v1)" and b: "pkt_buf v1 = pkt @ rest"
    and len: "length (pkt_buf v1) = 0xFFFF" and a: "a_bytes (client_addr v1) = put_at (a_bytes (client_addr v)) 0 fr"
    and v1: "v1 = v\<lparr>pkt_buf := pkt_buf v1, client_addr := client_addr v1\<rparr>"
    using recv_request [OF assms(1,4,5)] by blast
  have f: "sv_settings v1 = sv_settings v" "sessions v1 = sessions v" "shared_fs v1 = shared_fs v"
    by (subst v1, simp)+
  have "vec_ok (pkt @ rest)" using b len by (simp add: vec_ok_def)
  moreover have "main_recv (Rx_pkt pkt fr) v =
      (case prepare (session_new (sv_settings v)) (client_addr v1) (pkt @ rest) (length pkt) of
         Inl e \<Rightarrow> Inl e
       | Inr (ret, s) \<Rightarrow>
           Inr (if ret
                then v1\<lparr>sessions := sessions v @ [\<lparr>t_run = run_start (shared_fs v) s, t_ended = False\<rparr>], main_at := At_reap\<rparr>
                else v1\<lparr>main_at := At_reap\<rparr>))"
    using assms(2,3) rc b by (simp add: main_recv_def session_move_all f split: sum.split prod.split)
  ultimately show ?thesis using that b a v1 by blast
qed

lemma request_session:
  assumes "srv_inv v" "\<not> sv_stop v" "pkt = request_bytes k fname mode ps" "k = 1 \<or> k = 2"
    "text_ok fname" "text_ok mode" "pairs_ok ps" "9 \<le> length pkt" "length pkt \<le> 0xFFFF"
    "length fr \<le> max_sockaddr_size"
    "apply_options (options_new\<lparr>o_request_type := (if k = 1 then srv_read else srv_write),
       o_filename := fname, o_transfer_mode := mode_of (do_lower mode)\<rparr>) ps = Inr o'"
  shows "\<exists>v' s. main_recv (Rx_pkt pkt fr) v = Inr v' \<and>
    sessions v' = sessions v @ [\<lparr>t_run = run_start (shared_fs v) s, t_ended = False\<rparr>] \<and>
    opts s = o' \<and> stat s = need_init \<and> sess_settings s = sv_settings v \<and>
    a_bytes (cl_addr s) = put_at (a_bytes (client_addr v)) 0 fr \<and>
    client_addr v' = cl_addr s \<and> (\<exists>b n. prepare (session_new (sv_settings v)) (cl_addr s) b n = Inr (True, s))"
proof -
  obtain v1 rest where b: "vec_ok (pkt @ rest)" "a_bytes (client_addr v1) = put_at (a_bytes (client_addr v)) 0 fr"
    and rc: "main_recv (Rx_pkt pkt fr) v =
      (case prepare (session_new (sv_settings v)) (client_addr v1) (pkt @ rest) (length pkt) of
         Inl e \<Rightarrow> Inl e
       | Inr (ret, s) \<Rightarrow>
           Inr (if ret
                then v1\<lparr>sessions := sessions v @ [\<lparr>t_run = run_start (shared_fs v) s, t_ended = False\<rparr>], main_at := At_reap\<rparr>
                else v1\<lparr>main_at := At_reap\<rparr>))"
    by (rule main_recv_prepare [OF assms(1,2,8-10)])
  have "buffer_parse (pkt @ rest) (length pkt) = Inr (True, o')"
    using parse_request_eq [OF _ b(1) assms(4-7)] assms(3,11) by simp
  then obtain s where p: "prepare (session_new (sv_settings v)) (client_addr v1) (pkt @ rest) (length pkt) = Inr (True, s)"
    "opts s = o'"
    by (simp add: prepare_def Let_def)
  note f = prepare_facts [OF p(1)]
  have "\<exists>b n. prepare (session_new (sv_settings v)) (cl_addr s) b n = Inr (True, s)"
    unfolding f(5) using p(1) by blast
  moreover have "main_recv (Rx_pkt pkt fr) v =
      Inr (v1\<lparr>sessions := sessions v @ [\<lparr>t_run = run_start (shared_fs v) s, t_ended = False\<rparr>], main_at := At_reap\<rparr>)"
    (is "_ = Inr ?v'") using rc p(1) by simp
  ultimately show ?thesis using b(2) p(2) f by (intro exI [of _ ?v'] exI [of _ s]) simp
qed

text \<open>
  C15. A well-formed request starts exactly one session, at the end of the list: with the address of
  its sender, the settings of the server, and the file name, mode and options of the request. Nothing
  else of the server's sessions changes.
\<close>

theorem request_starts_session:
  assumes "srv_inv v" "\<not> sv_stop v" "pkt = request_bytes k fname mode ps" "k = 1 \<or> k = 2"
    "text_ok fname" "text_ok mode" "pairs_ok ps" "9 \<le> length pkt" "length pkt \<le> 0xFFFF"
    "length fr \<le> max_sockaddr_size"
    "apply_options (options_new\<lparr>o_request_type := (if k = 1 then srv_read else srv_write),
       o_filename := fname, o_transfer_mode := mode_of (do_lower mode)\<rparr>) ps = Inr o'"
  shows "\<exists>v' s. main_recv (Rx_pkt pkt fr) v = Inr v' \<and>
    sessions v' = sessions v @ [\<lparr>t_run = run_start (shared_fs v) s, t_ended = False\<rparr>] \<and>
    opts s = o' \<and> stat s = need_init \<and> sess_settings s = sv_settings v \<and>
    a_bytes (cl_addr s) = put_at (a_bytes (client_addr v)) 0 fr"
  using request_session [OF assms] by blast

definition demo_server :: srv where
  "demo_server = main_enter 3 0 (srv_new demo_sett demo_read_fs)"

lemma demo_server_ok: "srv_inv demo_server" "\<not> sv_stop demo_server" "sessions demo_server = []"
  "main_at demo_server = At_recv" "shared_fs demo_server = demo_read_fs"
  unfolding demo_server_def using srv_start_inv [OF what_ok_demo]
  by (simp_all add: main_enter_def srv_new_def)

lemma demo_texts: "text_ok ''fw.bin''" "text_ok ''octet''" "pairs_ok []" "pairs_ok [(''tsize'', ''4294967296'')]"
  "length (request_bytes 1 ''fw.bin'' ''octet'' []) = 15"
  "length (request_bytes 1 ''fw.bin'' ''octet'' [(''tsize'', ''4294967296'')]) = 32"
  by (simp_all add: text_ok_def pairs_ok_def request_bytes_def)

theorem request_starts_session_witness:
  "\<exists>v' s. main_recv (Rx_pkt (request_bytes 1 ''fw.bin'' ''octet'' []) (a_bytes demo_client)) demo_server = Inr v' \<and>
     sessions v' = [\<lparr>t_run = run_start demo_read_fs s, t_ended = False\<rparr>] \<and> o_filename (opts s) = ''fw.bin''"
proof -
  have "length (a_bytes demo_client) = 30" by code_simp
  then show ?thesis
    using request_starts_session [OF demo_server_ok(1,2) refl _ demo_texts(1-3), of 1 "a_bytes demo_client"]
      demo_texts(5) demo_server_ok(3,5) by fastforce
qed

text \<open>
  C17. One packet ends the server: a request with an option whose value is a number of 2147483648 or
  more makes the conversion throw in the main thread, outside every \<open>try\<close>, whatever sessions are
  running.
\<close>

theorem large_option_ends_server:
  assumes "srv_inv v" "\<not> sv_stop v" "pkt = request_bytes k fname mode ps" "k = 1 \<or> k = 2"
    "text_ok fname" "text_ok mode" "pairs_ok ps" "9 \<le> length pkt" "length pkt \<le> 0xFFFF"
    "length fr \<le> max_sockaddr_size" "(nm, val) \<in> set ps" "is_digit_str val" "2 ^ 31 \<le> digits_val 10 val"
  shows "main_recv (Rx_pkt pkt fr) v = Inl Out_of_range"
proof -
  obtain v1 rest where b: "vec_ok (pkt @ rest)"
    and rc: "main_recv (Rx_pkt pkt fr) v =
      (case prepare (session_new (sv_settings v)) (client_addr v1) (pkt @ rest) (length pkt) of
         Inl e \<Rightarrow> Inl e
       | Inr (ret, s) \<Rightarrow>
           Inr (if ret
                then v1\<lparr>sessions := sessions v @ [\<lparr>t_run = run_start (shared_fs v) s, t_ended = False\<rparr>], main_at := At_reap\<rparr>
                else v1\<lparr>main_at := At_reap\<rparr>))"
    by (rule main_recv_prepare [OF assms(1,2,8-10)])
  have "buffer_parse (pkt @ rest) (length pkt) = Inl Out_of_range"
    using parse_request_eq [OF _ b assms(4-7)] assms(3) apply_options_out_of_range [OF assms(11-13)] by simp
  then show ?thesis using rc by (simp add: prepare_def)
qed

theorem large_option_ends_server_witness:
  "main_recv (Rx_pkt (request_bytes 1 ''fw.bin'' ''octet'' [(''tsize'', ''4294967296'')]) (a_bytes demo_client)) demo_server =
     Inl Out_of_range"
proof -
  have "length (a_bytes demo_client) = 30" "is_digit_str ''4294967296''" "2 ^ 31 \<le> digits_val 10 ''4294967296''"
    by code_simp+
  then show ?thesis
    using demo_texts(6)
    by (intro large_option_ends_server [OF demo_server_ok(1,2) refl _ demo_texts(1,2,4)]) auto
qed

text \<open>The server with one session just started.\<close>

lemma demo_server_session: "\<exists>v t. srv_reach demo_server v \<and> t \<in> set (sessions v)"
proof -
  have "length (a_bytes demo_client) = 30" by code_simp
  then obtain v' s where "main_recv (Rx_pkt (request_bytes 1 ''fw.bin'' ''octet'' []) (a_bytes demo_client)) demo_server = Inr v'"
    "sessions v' = [\<lparr>t_run = run_start demo_read_fs s, t_ended = False\<rparr>]"
    using request_session [OF demo_server_ok(1,2) refl _ demo_texts(1-3), of 1 "a_bytes demo_client"]
      demo_texts(5) demo_server_ok(3,5) by fastforce
  then show ?thesis using srv_next [OF srv_refl recv [OF demo_server_ok(4)]] by fastforce
qed

theorem server_invariant_witness:
  "\<exists>(v :: srv) t. t \<in> set (sessions v) \<and> length (sb_buf (local_buf (t_run t))) = 0xFFFF \<and>
     sess_settings (sess (t_run t)) = demo_sett"
proof -
  obtain v t where v: "srv_reach (main_enter 3 0 (srv_new demo_sett demo_read_fs)) v" "t \<in> set (sessions v)"
    using demo_server_session by (auto simp: demo_server_def)
  show ?thesis using server_invariant [OF what_ok_demo v] v(2) by blast
qed

end
