(* ===== verification/MainApp.thy ===== *)
theory MainApp
  imports Srv
begin

text \<open>
  The program \<open>main\<close> (\<open>server-fw.cpp\<close>): load the options, become a daemon if asked to, initialise
  the server and run its main loop. The results of \<open>fork\<close>, \<open>waitpid\<close>, \<open>socket\<close> and \<open>bind\<close>
  are arguments; the model follows the process for which \<open>fork\<close> returned the given value. The
  result has the exit code, what is printed, and whether the main loop was run.
\<close>

abbreviation (input) EXIT_SUCCESS :: int where "EXIT_SUCCESS \<equiv> 0"
abbreviation (input) EXIT_FAILURE :: int where "EXIT_FAILURE \<equiv> 1"
abbreviation (input) fake_exit_code :: int where "fake_exit_code \<equiv> 1000"

section \<open>Waiting for the daemon\<close>

text \<open>
  The parent polls up to 26 times, 50 ms apart; \<open>wp\<close> is the answer of the last \<open>waitpid\<close>. The
  counter of the model is the number of polls made.
\<close>

function wait_daemon :: "(nat \<Rightarrow> int) \<Rightarrow> nat \<Rightarrow> int" where
  "wait_daemon waitpid wc =
     (if waitpid wc = 0 then (if wc + 1 > 25 then 0 else wait_daemon waitpid (wc + 1))
      else waitpid wc)"
  by pat_completeness auto
termination
  by (relation "measure (\<lambda>(w, wc). 26 - wc)") auto

declare wait_daemon.simps [simp del]

section \<open>The program\<close>

record outcome =
  exit_code :: int
  printed :: string
  looped :: bool

text \<open>The last part: initialise and run, unless the exit code is already set.\<close>

definition serve :: "int \<Rightarrow> int \<Rightarrow> srv \<Rightarrow> int \<Rightarrow> string \<Rightarrow> outcome" where
  "serve sock_res bind_res v code txt =
     (let r = (if code = fake_exit_code then
                 (if fst (srv_init sock_res bind_res v)
                  then \<lparr>exit_code = code, printed = txt, looped = True\<rparr>
                  else \<lparr>exit_code = EXIT_FAILURE, printed = txt @ ''Fail server init'' @ endl, looped = False\<rparr>)
               else \<lparr>exit_code = code, printed = txt, looped = False\<rparr>)
      in if exit_code r = fake_exit_code then r\<lparr>exit_code := EXIT_SUCCESS\<rparr> else r)"

definition app_main ::
  "pton \<Rightarrow> string \<Rightarrow> int \<Rightarrow> getopt_result list \<Rightarrow> int \<Rightarrow> (nat \<Rightarrow> int) \<Rightarrow> int \<Rightarrow> int \<Rightarrow> filesys \<Rightarrow> outcome res" where
  "app_main inet_pton argv0 argc gs fork_res waitpid sock_res bind_res fs =
     (case load_options inet_pton settings_new argc gs of
        Inl e \<Rightarrow> Inl e
      | Inr (ret, s) \<Rightarrow>
          (let v = srv_new s fs
           in if \<not> ret then Inr \<lparr>exit_code = EXIT_FAILURE, printed = out_help argv0, looped = False\<rparr>
              else if get_is_daemon s then
                (if fork_res < 0 then Inr \<lparr>exit_code = EXIT_FAILURE, printed = [], looped = False\<rparr>
                 else if fork_res = 0 then Inr (serve sock_res bind_res v fake_exit_code [])
                 else
                   (let txt = ''Daemon ('' @ int_str fork_res @ '') start ... '' @
                          (if wait_daemon waitpid 0 \<noteq> 0
                           then ''Failed'' @ endl @ ''Daemon not started; see syslog for detail'' @ endl
                           else ''Successfull'' @ endl)
                    in Inr (serve sock_res bind_res v EXIT_SUCCESS txt)))
              else Inr (serve sock_res bind_res v fake_exit_code out_id)))"

section \<open>Properties\<close>

lemma wait_daemon_first:
  "wc \<le> 25 \<Longrightarrow> wait_daemon w wc =
     (case find (\<lambda>i. w i \<noteq> 0) [wc..<26] of None \<Rightarrow> 0 | Some i \<Rightarrow> w i)"
proof (induction w wc rule: wait_daemon.induct)
  case (1 w wc)
  have up: "[wc..<26] = wc # [Suc wc..<26]" using 1 by (simp add: upt_conv_Cons)
  show ?case
  proof (cases "w wc = 0 \<and> \<not> wc + 1 > 25")
    case True
    then show ?thesis using 1 by (subst wait_daemon.simps) (simp add: up)
  next
    case False
    then show ?thesis using 1 by (subst wait_daemon.simps) (auto simp: up)
  qed
qed

text \<open>
  Waiting for the daemon always ends, after at most 26 polls, and its result is the first
  answer of \<open>waitpid\<close> other than 0 among them, or 0.
\<close>

theorem wait_daemon_bounded:
  "wait_daemon waitpid 0 = (case find (\<lambda>i. waitpid i \<noteq> 0) [0..<26] of None \<Rightarrow> 0 | Some i \<Rightarrow> waitpid i)"
  by (rule wait_daemon_first) simp

text \<open>
  C34. The program ends with one of the two standard exit codes, never with the marker value it uses
  inside, and it runs the main loop only if the server was initialised; asking for help or an
  unknown option ends it with failure and the help text.
\<close>

theorem exit_codes:
  assumes "app_main inet_pton argv0 argc gs fork_res waitpid sock_res bind_res fs = Inr r"
  shows "exit_code r \<in> {EXIT_SUCCESS, EXIT_FAILURE} \<and>
    (looped r \<longrightarrow> exit_code r = EXIT_SUCCESS \<and> sock_res \<ge> 0 \<and> bind_res = 0) \<and>
    (argc > 1 \<and> (\<exists>g \<in> set gs. help_asked g) \<longrightarrow>
       r = \<lparr>exit_code = EXIT_FAILURE, printed = out_help argv0, looped = False\<rparr>)"
proof -
  obtain ret s where l: "load_options inet_pton settings_new argc gs = Inr (ret, s)"
    using assms by (auto simp: app_main_def split: sum.splits)
  have nr: "\<not> ret" if "argc > 1" "\<exists>g \<in> set gs. help_asked g"
    using load_loop_effect [of inet_pton True "settings_new\<lparr>backup_dirs := []\<rparr>" gs ret s] l that
    by (simp add: load_options_def)
  have hlp: "r = \<lparr>exit_code = EXIT_FAILURE, printed = out_help argv0, looped = False\<rparr>"
    if "argc > 1" "\<exists>g \<in> set gs. help_asked g"
    using nr [OF that] assms l by (simp add: app_main_def Let_def)
  have "exit_code r \<in> {EXIT_SUCCESS, EXIT_FAILURE} \<and>
    (looped r \<longrightarrow> exit_code r = EXIT_SUCCESS \<and> sock_res \<ge> 0 \<and> bind_res = 0)"
    using assms l
    by (auto simp: app_main_def serve_def srv_init_def srv_socket_open_def srv_socket_close_def Let_def
        split: if_splits)
  then show ?thesis using hlp by blast
qed

theorem exit_codes_witness:
  "\<exists>r. app_main (\<lambda>_ _. None) ''server-fw'' 2 [\<lparr>go_opt = CHR ''?'', go_index = 0, go_arg = None\<rparr>] 0 (\<lambda>_. 0) 3 0 demo_read_fs
       = Inr r \<and> exit_code r = EXIT_FAILURE \<and> \<not> looped r"
proof -
  let ?gs = "[\<lparr>go_opt = CHR ''?'', go_index = 0, go_arg = None\<rparr>]"
  let ?a = "app_main (\<lambda>_ _. None) ''server-fw'' 2 ?gs 0 (\<lambda>_. 0) 3 0 demo_read_fs"
  obtain r where r: "?a = Inr r"
    by (auto simp: app_main_def load_options_def load_option_def)
  show ?thesis using exit_codes [OF r] r by (auto simp: help_asked_def)
qed

text \<open>
  \<open>main_loop\<close> does not initialise a server that has none: a closed socket is -1 and the test is
  for 0, so a fresh server enters the loop and receives on the invalid descriptor, although the
  header promises that the loop runs \<open>init\<close> at its beginning.
\<close>

theorem main_loop_skips_init:
  "sv_socket (main_enter sock_res bind_res (srv_new s fs)) = - 1 \<and>
   main_at (main_enter sock_res bind_res (srv_new s fs)) = At_recv"
  by (simp add: main_enter_def srv_new_def)

end
