(* ===== verification/Simulation.thy ===== *)
theory Simulation
  imports Main
begin

text \<open>
  Labelled runs of a step relation, and forward simulation: a concrete machine whose steps are
  matched, through an abstraction function, by the steps of an abstract one. The invariant has the
  number of steps that are left as its argument, so that it may bound a counter of the concrete
  machine.
\<close>

inductive steps :: "('i \<Rightarrow> 's \<Rightarrow> 's \<Rightarrow> bool) \<Rightarrow> 'i list \<Rightarrow> 's \<Rightarrow> 's \<Rightarrow> bool" for step where
  steps_Nil: "steps step [] s s"
| steps_Cons: "step i s s' \<Longrightarrow> steps step is s' s'' \<Longrightarrow> steps step (i # is) s s''"

inductive_simps steps_Nil_iff [simp]: "steps step [] s s'"
inductive_simps steps_Cons_iff: "steps step (i # is) s s'"

lemma steps_append: "steps step is s s' \<Longrightarrow> steps step js s' s'' \<Longrightarrow> steps step (is @ js) s s''"
  by (induction rule: steps.induct) (auto intro: steps_Cons)

locale simulation =
  fixes cstep :: "'i \<Rightarrow> 'c \<Rightarrow> 'c \<Rightarrow> bool"
    and astep :: "'i \<Rightarrow> 'a \<Rightarrow> 'a \<Rightarrow> bool"
    and inv :: "nat \<Rightarrow> 'c \<Rightarrow> bool"
    and abs :: "'c \<Rightarrow> 'a"
  assumes sim_inv: "\<lbrakk> inv (Suc n) c; cstep i c c' \<rbrakk> \<Longrightarrow> inv n c'"
    and sim_step: "\<lbrakk> inv (Suc n) c; cstep i c c' \<rbrakk> \<Longrightarrow> astep i (abs c) (abs c')"
begin

lemma refines:
  assumes "steps cstep is c c'" "inv (length is + n) c"
  shows "inv n c' \<and> steps astep is (abs c) (abs c')"
  using assms
  by (induction rule: steps.induct) (auto intro: steps.intros dest: sim_inv sim_step)

end

end
