(* ===== verification/Traffic.thy ===== *)
theory Traffic
  imports SessionInv
begin

text \<open>
  What arrives at a session, seen from outside: polls without result, packets from other addresses,
  packets of the client. The lemmas say what one iteration of the loop does with them and how a
  session begins; downloads and uploads are built from them.
\<close>

section \<open>Inputs\<close>

text \<open>Nothing arrives, or a packet arrives from another address.\<close>

definition ignored :: "addr \<Rightarrow> env \<Rightarrow> bool" where
  "ignored cl e \<longleftrightarrow>
     (case e_rx e of Rx_errno n \<Rightarrow> n = EAGAIN | Rx_pkt pkt fr \<Rightarrow> rx_client fr \<noteq> a_bytes cl)"

text \<open>Polls without result that do not exceed the timeout, counted from the time \<open>t\<close>.\<close>

definition waits :: "addr \<Rightarrow> int \<Rightarrow> int \<Rightarrow> env list \<Rightarrow> bool" where
  "waits cl tmo t es \<longleftrightarrow> (\<forall>e \<in> set es. ignored cl e \<and> e_time e - t < tmo + 1)"

definition gives :: "addr \<Rightarrow> byte list \<Rightarrow> env \<Rightarrow> bool" where
  "gives cl pkt e \<longleftrightarrow> (case e_rx e of Rx_errno n \<Rightarrow> False | Rx_pkt p fr \<Rightarrow> p = pkt \<and> rx_client fr = a_bytes cl)"

section \<open>Block numbers and fields of packets\<close>

lemma and_FFFF: "of_nat (k AND 0xFFFF) = (of_nat k :: u16)"
proof -
  have "k AND 0xFFFF = k mod 2 ^ 16"
    using take_bit_eq_mask [of 16 k] by (simp add: mask_eq_exp_minus_1 take_bit_eq_mod)
  then show ?thesis by (simp add: word_of_nat_eq_iff take_bit_eq_mod)
qed

lemma blk_num_local_eq: "blk_num_local s = of_nat (stage s)"
  by (simp add: blk_num_local_def and_FFFF)

lemma be_val_u16: "of_nat (be_val (u16_bytes v)) = v"
  using be_val_be_bytes [of 2 "unat v"] unsigned_less [of v, where ?'a = nat] by (simp add: u16_bytes_def)

lemma pkt_field_header:
  "pkt_field (u16_bytes x @ u16_bytes y @ bs) 0 = x" "pkt_field (u16_bytes x @ u16_bytes y @ bs) 2 = y"
  by (simp_all add: pkt_field_def be_val_u16)

lemma pkt_field_ack: "pkt_field (ack_pkt k) 0 = 4" "pkt_field (ack_pkt k) 2 = k"
  using pkt_field_header [of 4 k "[]"] by (simp_all add: ack_pkt_def)

lemma pkt_field_data: "pkt_field (data_pkt k bs) 0 = 3" "pkt_field (data_pkt k bs) 2 = k"
  using pkt_field_header [of 3 k bs] by (simp_all add: data_pkt_def)

lemma windowsize_opts: "opts s' = opts s \<Longrightarrow> windowsize s' = windowsize s"
  by (simp add: windowsize_def)

lemma blk_pos_eq:
  assumes "0 < stage s" "stage s < 2 ^ 64" "(stage s - 1) * unat (block_size s) < 2 ^ 64"
  shows "blk_pos s = (stage s - 1) * unat (block_size s)"
  using assms by (simp add: blk_pos_def sz_simps)

text \<open>The packet that is expected has the stage of the session.\<close>

lemma rx_stage_same:
  assumes "stage s < 2 ^ 62"
  shows "rx_stage_ok s (of_nat (stage s))" "rx_set_stage s (of_nat (stage s)) = s"
proof -
  have "ssize_of (stage s) = int (stage s)" "ssize_of (sz_add (stage s) 1) = int (stage s) + 1"
    using assms by (simp_all add: sz_simps)
  then show "rx_stage_ok s (of_nat (stage s))"
    by (simp add: rx_stage_ok_def rx_stage_def blk_num_local_eq)
qed (simp add: rx_set_stage_def blk_num_local_eq)

text \<open>An accepted packet sets the stage its number stands for, at most one more than the current one.\<close>

lemma rx_set_stage_eq:
  assumes "rx_stage_ok s k" "stage s < 2 ^ 62"
  shows "stage (rx_set_stage s k) \<le> stage s + 1" "of_nat (stage (rx_set_stage s k)) = k"
    "rx_set_stage s k = s\<lparr>stage := stage (rx_set_stage s k)\<rparr>"
proof -
  have sz: "ssize_of (sz_add (stage s) 1) = int (stage s) + 1" "ssize_of (stage s) = int (stage s)"
    using assms(2) by (simp_all add: sz_simps)
  then have r: "0 \<le> rx_stage s k" "rx_stage s k \<le> int (stage s) + 1" using assms(1) by (auto simp: rx_stage_ok_def)
  then have n: "size_of (rx_stage s k) = nat (rx_stage s k)" using assms(2) by (intro size_of_exact) auto
  show "stage (rx_set_stage s k) \<le> stage s + 1" using r n by (auto simp: rx_set_stage_def)
  have "(of_nat (nat (rx_stage s k)) :: u16) = of_int (rx_stage s k)" using r(1) by simp
  also have "\<dots> = k" by (simp add: rx_stage_def sz(2) blk_num_local_eq)
  finally show "of_nat (stage (rx_set_stage s k)) = k" using n by (auto simp: rx_set_stage_def blk_num_local_eq)
  show "rx_set_stage s k = s\<lparr>stage := stage (rx_set_stage s k)\<rparr>" by (simp add: rx_set_stage_def)
qed

section \<open>The loop\<close>

lemma run_loop_append:
  "run_loop (es @ es') r = (case run_loop es r of Inl x \<Rightarrow> Inl x | Inr r' \<Rightarrow> run_loop es' r')"
proof (induction es arbitrary: r)
  case (Cons e es)
  show ?case
  proof (cases "is_finished (sess r)")
    case True
    then have "run_loop es' r = Inr r" by (cases es') simp_all
    with True show ?thesis by simp
  next
    case False
    then show ?thesis using Cons.IH by (auto split: sum.split)
  qed
qed simp

lemma run_loop_1:
  "\<not> is_finished (sess r) \<Longrightarrow> run_step e r = Inr r' \<Longrightarrow> run_loop (e # es) r = run_loop es r'"
  by simp

lemma receive_ignored:
  assumes "sbuf_ok b" "ignored (cl_addr s) e"
  shows "\<exists>b'. receive_no_wait e s b = Inr (tr_nop, s, b') \<and> sbuf_ok b'"
proof (cases "e_rx e")
  case (Rx_errno n)
  then show ?thesis using assms by (simp add: ignored_def receive_errno)
next
  case (Rx_pkt pkt fr)
  then show ?thesis
    using assms receive_pkt_eq [OF assms(1) Rx_pkt] sbuf_ok_rx_buf by (auto simp: ignored_def)
qed

text \<open>A poll without result in a receiving state only may change the buffer, or times out.\<close>

lemma step_ignored:
  assumes "sbuf_ok (local_buf r)" "stat (sess r) \<in> {ack_rx, data_rx}" "ignored (cl_addr (sess r)) e"
    "timeout (opts (sess r)) < 2 ^ 31 - 1"
  shows "\<exists>b. sbuf_ok b \<and> run_step e r =
    Inr (if e_time e - oper_time r < timeout (opts (sess r)) + 1 then r\<lparr>local_buf := b\<rparr>
         else goto_state retransmit (r\<lparr>local_buf := b\<rparr>))"
proof -
  obtain b where b: "receive_no_wait e (sess r) (local_buf r) = Inr (tr_nop, sess r, b)" "sbuf_ok b"
    using receive_ignored [OF assms(1,3)] by blast
  have "run_step e r = poll_timeout e (r\<lparr>local_buf := b\<rparr>)"
    using assms(2) b(1) by (auto simp: run_step_def step_ack_rx_def step_data_rx_def)
  then show ?thesis using b(2) assms(4) by (auto simp: poll_timeout_def timeout_pass_def Let_def)
qed

lemma loop_waits:
  assumes "sbuf_ok (local_buf r)" "stat (sess r) \<in> {ack_rx, data_rx}" "timeout (opts (sess r)) < 2 ^ 31 - 1"
    "waits (cl_addr (sess r)) (timeout (opts (sess r))) (oper_time r) es"
  shows "\<exists>b. sbuf_ok b \<and> run_loop es r = Inr (r\<lparr>local_buf := b\<rparr>)"
  using assms
proof (induction es arbitrary: r)
  case Nil
  then show ?case by (intro exI [of _ "local_buf r"]) simp
next
  case (Cons e es)
  have e: "ignored (cl_addr (sess r)) e" "e_time e - oper_time r < timeout (opts (sess r)) + 1"
    using Cons.prems(4) by (simp_all add: waits_def)
  obtain b where b: "sbuf_ok b" "run_step e r = Inr (r\<lparr>local_buf := b\<rparr>)"
    using step_ignored [OF Cons.prems(1,2) e(1) Cons.prems(3)] e(2) by auto
  have "\<exists>b'. sbuf_ok b' \<and> run_loop es (r\<lparr>local_buf := b\<rparr>) = Inr (r\<lparr>local_buf := b\<rparr>\<lparr>local_buf := b'\<rparr>)"
    by (rule Cons.IH) (use Cons.prems b(1) in \<open>simp_all add: waits_def\<close>)
  moreover have "\<not> is_finished (sess r)" using Cons.prems(2) by (auto simp: is_finished_def)
  ultimately show ?case using b(2) by auto
qed

section \<open>The begin of a session\<close>

lemma step_init_ok:
  assumes "prepare (session_new st) ad pkt n = Inr (True, s)" "0 \<le> e_socket e" "e_bind e \<noteq> - 1"
    "dm_init fs st dmf_new (opts s) = Inr (True, None, d, fs')"
  shows "run_step e (run_start fs s) =
    Inr ((run_start fs s)\<lparr>sess := s\<lparr>stage := 0, sock := e_socket e, file_man := Some d, stat := ack_options\<rparr>, world := fs'\<rparr>)"
proof -
  note f = prepare_facts [OF assms(1)]
  have "sess_init e fs (s\<lparr>stage := 0\<rparr>) = Inr (True, s\<lparr>stage := 0, sock := e_socket e, file_man := Some d\<rparr>, fs')"
    using assms(2-4) f(6) by (simp add: sess_init_def Let_def dm_callback_def)
  moreover have "\<not> was_error (s\<lparr>stage := 0, sock := e_socket e, file_man := Some d\<rparr>)"
    using f(2,3) by (simp add: was_error_def)
  ultimately show ?thesis
    using f(1) by (simp add: run_step_def step_need_init_def run_start_def Let_def goto_state_def switch_to_def)
qed

text \<open>The state after the first iteration, when the socket is open and the data manager ready.\<close>

lemma session_begins:
  assumes "what_ok fs" "prepare (session_new st) ad pkt n = Inr (True, s)" "0 \<le> e_socket e" "e_bind e \<noteq> - 1"
    "dm_init fs st dmf_new (opts s) = Inr (True, None, d, fs')"
  obtains r where "run_step e (run_start fs s) = Inr r" "run_inv r" "stat (sess r) = ack_options" "\<not> was_error (sess r)"
    "opts (sess r) = opts s" "block_size (sess r) = block_size s" "windowsize (sess r) = windowsize s"
    "cl_addr (sess r) = ad" "sess_settings (sess r) = st" "sock (sess r) = e_socket e" "file_man (sess r) = Some d"
    "sent r = []" "world r = fs'" "\<not> last_blk_processed r" "retr_count r = 0"
    "\<not> is_finished (sess (run_start fs s))"
proof -
  note f = prepare_facts [OF assms(2)] and st = step_init_ok [OF assms(2-5)]
  show ?thesis
    by (rule that [OF st]) (use f run_step_ok [OF prepared_run_inv [OF assms(1,2)] st] in
      \<open>simp_all add: run_start_def was_error_def block_size_def windowsize_def is_finished_def\<close>)
qed

text \<open>The state and stage after \<open>ack_options\<close>.\<close>

definition next_state :: "options \<Rightarrow> state" where
  "next_state o' = (if o_request_type o' = srv_read then (if was_set_any o' then ack_rx else data_tx)
     else (if was_set_any o' then data_rx else ack_tx))"

definition first_stage :: "options \<Rightarrow> nat" where
  "first_stage o' = (if (o_request_type o' = srv_read) = was_set_any o' then 0 else 1)"

definition opt_reply :: "options \<Rightarrow> byte list list" where
  "opt_reply o' = (if was_set_any o' then [oack_pkt o'] else [])"

lemma step_options:
  assumes "run_inv r" "stat (sess r) = ack_options" "o_request_type (opts (sess r)) \<noteq> srv_unknown"
  shows "\<exists>b. sbuf_ok b \<and> run_step e r =
    Inr (r\<lparr>local_buf := b,
           sess := (sess r)\<lparr>stat := next_state (opts (sess r)), stage := first_stage (opts (sess r))\<rparr>,
           oper_time := e_time e, sent := sent r @ opt_reply (opts (sess r))\<rparr>)"
proof -
  let ?o = "opts (sess r)"
  note i = run_invD [OF assms(1)]
  define b where "b = (if was_set_any ?o then appended (buf_clear (local_buf r)) (oack_pkt ?o) else local_buf r)"
  have b: "sbuf_ok b" using i construct_opt_reply_eq(2) [OF i(1,2)] by (simp add: b_def)
  have "length (u16_bytes 6) \<le> length (oack_pkt ?o)" by (simp only: oack_pkt_def length_append le_add1)
  then have ne: "oack_pkt ?o \<noteq> []" by auto
  have "content (appended (buf_clear (local_buf r)) (oack_pkt ?o)) = oack_pkt ?o"
    using content_appended [OF sbuf_ok_inv [OF sbuf_ok_clear [OF i(1)]]] by simp
  then have sz: "was_set_any ?o \<Longrightarrow> 0 < data_size b \<and> content b = oack_pkt ?o" using ne by (simp add: b_def)
  have up: "(sess r)\<lparr>stage := k, stat := t\<rparr> = (sess r)\<lparr>stat := t, stage := k\<rparr>" for k t by simp
  note defs = run_step_def step_ack_options_def Let_def next_state_def first_stage_def opt_reply_def
    goto_state_def switch_to_def set_stage_def timeout_reset_def send_buf_def transmit_no_wait_def
  show ?thesis
  proof (cases "was_set_any ?o")
    case True
    then have "construct_opt_reply (sess r) (local_buf r) = Inr b"
      using construct_opt_reply_eq(1) [OF i(1,2)] by (simp add: b_def)
    then show ?thesis
      using True b assms(2,3) sz [OF True]
      by (cases "o_request_type ?o"; intro exI [of _ b]) (simp_all add: defs)
  next
    case False
    then show ?thesis
      using i(1) assms(2,3) by (cases "o_request_type ?o"; intro exI [of _ "local_buf r"]) (simp_all add: defs up)
  qed
qed

text \<open>The first state after the options were answered.\<close>

lemma session_opens:
  fixes e :: env
  assumes "what_ok fs" "prepare (session_new st) ad pkt n = Inr (True, s)" "0 \<le> e_socket e" "e_bind e \<noteq> - 1"
    "dm_init fs st dmf_new (opts s) = Inr (True, None, d, fs')" "o_request_type (opts s) \<noteq> srv_unknown"
  obtains r where "sess_reach (run_start fs s) r" "run_inv r" "stat (sess r) = next_state (opts s)"
    "stage (sess r) = first_stage (opts s)" "\<not> was_error (sess r)" "opts (sess r) = opts s" "cl_addr (sess r) = ad"
    "sess_settings (sess r) = st" "file_man (sess r) = Some d" "sent r = opt_reply (opts s)" "\<not> last_blk_processed r"
    "retr_count r = 0" "oper_time r = e_time e"
proof -
  obtain r1 where s1: "run_step e (run_start fs s) = Inr r1" and i1: "run_inv r1"
    and r1: "stat (sess r1) = ack_options" "opts (sess r1) = opts s" "sent r1 = []" "retr_count r1 = 0" "file_man (sess r1) = Some d"
      "\<not> was_error (sess r1)" "cl_addr (sess r1) = ad" "sess_settings (sess r1) = st" "\<not> last_blk_processed r1"
    and nf: "\<not> is_finished (sess (run_start fs s))"
    by (rule session_begins [OF assms(1-5)])
  obtain b where b: "sbuf_ok b" "run_step e r1 = Inr (r1\<lparr>local_buf := b,
      sess := (sess r1)\<lparr>stat := next_state (opts s), stage := first_stage (opts s)\<rparr>,
      oper_time := e_time e, sent := opt_reply (opts s)\<rparr>)" (is "_ = Inr ?r2")
    using step_options [OF i1 r1(1), of e] r1 assms(6) by auto
  have i2: "run_inv ?r2" using run_step_ok [OF i1 b(2)] by simp
  have "\<not> is_finished (sess r1)" using r1(1) by (simp add: is_finished_def)
  then have "sess_reach (run_start fs s) ?r2" using s1 b(2) nf by (blast intro: reach_refl reach_step iterate)
  then show ?thesis by (rule that) (use i2 r1 in \<open>simp_all add: was_error_def\<close>)
qed

section \<open>An example client\<close>

text \<open>The inputs of an iteration in which a packet arrives from the example client.\<close>

definition from_client :: "int \<Rightarrow> byte list \<Rightarrow> env" where
  "from_client t pkt = (quiet t)\<lparr>e_rx := Rx_pkt pkt (a_bytes demo_client)\<rparr>"

lemma demo_client_rx: "rx_client (a_bytes demo_client) = a_bytes demo_client"
  by code_simp

lemmas opt_eval = windowsize_def block_size_def blksize_def timeout_def windowsize_opt_def was_set_any_def
  was_set_blksize_def was_set_timeout_def was_set_tsize_def was_set_windowsize_def options_new_def

lemma demo_plain_opts:
  "opts (demo_prepared (demo_request [])) =
     options_new\<lparr>o_request_type := srv_read, o_filename := ''fw.bin'', o_transfer_mode := tm_octet\<rparr>"
  by code_simp

lemma demo_file:
  "find_for_read demo_read_fs demo_sett ''fw.bin'' = Inr (Some ''/r/fw.bin'')"
  "fs_open_in demo_read_fs ''/r/fw.bin'' = Some ''abc''"
  "fs_stat demo_read_fs ''/r/fw.bin'' = Inr (Some (Reg ''abc''))"
  by code_simp+

lemma demo_retransmit_count: "retransmit_count demo_sett = 3"
  by (simp add: demo_sett_def settings_new_def)

end
