(* ===== verification/Upload.thy ===== *)
theory Upload
  imports Traffic
begin

text \<open>
  Whole uploads with a client that follows the protocol: every block is acknowledged, and at the end
  the file system has the new file with exactly the blocks the client sent.
\<close>

section \<open>The client\<close>

text \<open>
  The blocks \<open>k\<close> to \<open>m\<close> of \<open>fl\<close> arrive one after the other, each in time; the session needs one more
  iteration for each acknowledgement. The wait for a block starts at time \<open>t\<close>.
\<close>

inductive delivers :: "addr \<Rightarrow> int \<Rightarrow> nat \<Rightarrow> byte list \<Rightarrow> int \<Rightarrow> nat \<Rightarrow> nat \<Rightarrow> env list \<Rightarrow> bool" for cl tmo n fl where
  delivers_last: "waits cl tmo t ws \<Longrightarrow> gives cl (data_pkt (of_nat k) (block n fl k)) dt \<Longrightarrow> e_dev dt \<Longrightarrow>
    delivers cl tmo n fl t k k (ws @ [dt, ak])"
| delivers_next: "waits cl tmo t ws \<Longrightarrow> gives cl (data_pkt (of_nat k) (block n fl k)) dt \<Longrightarrow> e_dev dt \<Longrightarrow> k < m \<Longrightarrow>
    delivers cl tmo n fl (e_time ak) (Suc k) m es \<Longrightarrow> delivers cl tmo n fl t k m ((ws @ [dt, ak]) @ es)"

section \<open>Storing the blocks of a file\<close>

definition up :: "run_state \<Rightarrow> bool" where
  "up r \<longleftrightarrow> run_inv r \<and> \<not> was_error (sess r) \<and> windowsize (sess r) = 1 \<and>
     0 < unat (block_size (sess r)) \<and> unat (block_size (sess r)) \<le> 65531 \<and> timeout (opts (sess r)) < 2 ^ 31 - 1"

text \<open>The manager has stored \<open>fl\<close> for the file at \<open>p\<close>.\<close>

definition has_sink :: "settings \<Rightarrow> path \<Rightarrow> byte list \<Rightarrow> run_state \<Rightarrow> bool" where
  "has_sink st p fl r \<longleftrightarrow> (case file_man (sess r) of None \<Rightarrow> False
     | Some d \<Rightarrow> dm_writable d \<and> dm_stored d = fl \<and> filename d = p \<and> dm_settings d = st)"

lemma dm_write_other:
  "dm_write d bs pos ok = Inr (ret, err, d') \<Longrightarrow> filename d' = filename d \<and> dm_settings d' = dm_settings d"
  by (auto simp: dm_write_def Let_def split: if_splits sum.splits)

lemma receive_expected_data:
  assumes "sbuf_ok b" "stat s = data_rx" "0 < stage s" "stage s < 2 ^ 62"
    "gives (cl_addr s) (data_pkt (of_nat (stage s)) bs) e" "e_dev e" "length bs \<le> 65531" "file_man s = Some d"
    "dm_writable d" "length (dm_stored d) = (stage s - 1) * unat (block_size s)" "length (dm_stored d) < 2 ^ 63"
  shows "\<exists>d' b'. receive_no_wait e s b = Inr (tr_ok, s\<lparr>file_man := Some d'\<rparr>, b') \<and> sbuf_ok b' \<and>
    data_size b' = 4 + length bs \<and> dm_writable d' \<and> dm_stored d' = dm_stored d @ bs \<and>
    filename d' = filename d \<and> dm_settings d' = dm_settings d"
proof -
  let ?p = "data_pkt (of_nat (stage s)) bs"
  obtain fr where e: "e_rx e = Rx_pkt ?p fr" "rx_client fr = a_bytes (cl_addr s)"
    using assms(5) by (auto simp: gives_def split: rx_result.splits)
  have cut: "rx_cut ?p = ?p" "length ?p = 4 + length bs" using assms(7) by (simp_all add: rx_cut_def data_pkt_def)
  have pl: "take (length bs) (drop 4 (sb_buf (rx_buf b ?p))) = bs"
    using take_rx_buf [OF assms(1), of "4 + length bs" ?p 4] cut by (simp add: data_pkt_def)
  have pos: "blk_pos s = length (dm_stored d)"
    using blk_pos_eq [of s] assms(3,4,10,11) by simp
  obtain d' where w: "dm_write d bs (blk_pos s) True = Inr (int (length bs), None, d')" "dm_writable d'"
    "dm_stored d' = dm_stored d @ bs"
    using wq.wr_next [OF assms(9) refl assms(11), of bs] pos by auto
  have "receive_data e s (sb_buf (rx_buf b ?p)) (length (rx_cut ?p)) (of_nat (stage s)) = Inr (tr_ok, s\<lparr>file_man := Some d'\<rparr>)"
    using rx_stage_same [OF assms(4)] assms(6,8) w(1) pl cut by (simp add: receive_data_def dm_callback_def)
  then show ?thesis
    using receive_pkt_eq [OF assms(1) e(1), of s] e(2) assms(2) sbuf_ok_rx_buf [OF assms(1), of ?p] w(2,3)
      dm_write_other [OF w(1)] cut
    by (auto simp: pkt_field_data rx_buf_def)
qed

text \<open>One block arrives and is acknowledged.\<close>

lemma step_take_data:
  assumes "up r" "stat (sess r) = data_rx" "stage (sess r) = k" "0 < k" "k < 2 ^ 62" "n = unat (block_size (sess r))"
    "gives (cl_addr (sess r)) (data_pkt (of_nat k) bs) e" "e_dev e" "length bs \<le> n" "has_sink st p fl r"
    "length fl = (k - 1) * n" "length fl < 2 ^ 63"
  shows "\<exists>d b. sbuf_ok b \<and> run_step e r =
      Inr (r\<lparr>sess := (sess r)\<lparr>file_man := Some d, stat := ack_tx\<rparr>, local_buf := b, last_blk_processed := (length bs \<noteq> n)\<rparr>) \<and>
    dm_writable d \<and> dm_stored d = fl @ bs \<and> filename d = p \<and> dm_settings d = st"
proof -
  obtain d where d: "file_man (sess r) = Some d" "dm_writable d" "dm_stored d = fl" "filename d = p" "dm_settings d = st"
    using assms(10) by (auto simp: has_sink_def split: option.splits)
  note u = assms(1) [unfolded up_def]
  have b: "sbuf_ok (local_buf r)" using u run_invD(1) by blast
  have len: "length bs \<le> 65531" using u assms(6,9) by simp
  obtain d' b' where c: "receive_no_wait e (sess r) (local_buf r) = Inr (tr_ok, (sess r)\<lparr>file_man := Some d'\<rparr>, b')"
    "sbuf_ok b'" "data_size b' = 4 + length bs" "dm_writable d'" "dm_stored d' = fl @ bs" "filename d' = p" "dm_settings d' = st"
    using receive_expected_data [OF b assms(2) _ _ _ assms(8) len d(1,2)] assms(3-7,11,12) d by auto
  have w: "is_window_close ((sess r)\<lparr>file_man := Some d'\<rparr>) k"
    using u by (simp add: is_window_close_def windowsize_def split: if_splits)
  have f: "full_data_size ((sess r)\<lparr>file_man := Some d'\<rparr>) = 4 + n"
    using assms(6) by (simp add: full_data_size_def block_size_def)
  have "run_step e r =
      Inr (r\<lparr>sess := (sess r)\<lparr>file_man := Some d', stat := ack_tx\<rparr>, local_buf := b', last_blk_processed := (length bs \<noteq> n)\<rparr>)"
    using c(1,3) w f assms(2,3) by (simp add: run_step_def step_data_rx_def Let_def goto_state_def switch_to_def)
  then show ?thesis using c by blast
qed

lemma step_send_ack:
  assumes "sbuf_ok (local_buf r)" "stat (sess r) = ack_tx" "stage (sess r) < 2 ^ 62"
  shows "\<exists>b. sbuf_ok b \<and> run_step e r =
    Inr (if last_blk_processed r
         then r\<lparr>local_buf := b, sent := sent r @ [ack_pkt (of_nat (stage (sess r)))],
                sess := (sess r)\<lparr>stat := finish, stage := stage (sess r) + 1\<rparr>\<rparr>
         else r\<lparr>local_buf := b, sent := sent r @ [ack_pkt (of_nat (stage (sess r)))],
                sess := (sess r)\<lparr>stat := data_rx, stage := stage (sess r) + 1\<rparr>, oper_time := e_time e\<rparr>)"
proof -
  obtain b where b: "construct_ack (sess r) (local_buf r) = Inr b" "sbuf_ok b"
    "content b = ack_pkt (blk_num_local (sess r))" "data_size b = 4" using construct_ack_eq [OF assms(1)] by blast
  have "sz_add (stage (sess r)) 1 = stage (sess r) + 1" using assms(3) by (simp add: sz_simps)
  then show ?thesis
    using b assms(2)
    by (intro exI [of _ b])
      (simp add: run_step_def step_ack_tx_def Let_def goto_state_def switch_to_def timeout_reset_def
        inc_stage_def set_stage_def send_buf_def transmit_no_wait_def blk_num_local_eq)
qed

lemma up_update:
  assumes "up r" "sbuf_ok b" "file_man (sess r) \<noteq> None"
  shows "up (r\<lparr>local_buf := b\<rparr>)"
    "up (r\<lparr>sess := (sess r)\<lparr>file_man := Some d, stat := t\<rparr>, local_buf := b, last_blk_processed := l\<rparr>)"
    "up (r\<lparr>local_buf := b, sent := ps, sess := (sess r)\<lparr>stat := t, stage := k\<rparr>\<rparr>)"
    "up (r\<lparr>local_buf := b, sent := ps, sess := (sess r)\<lparr>stat := t, stage := k\<rparr>, oper_time := x\<rparr>)"
  using assms by (auto simp: up_def run_inv_def was_error_def windowsize_def block_size_def split: if_splits)

lemma loop_delivered:
  assumes "up r" "stat (sess r) = data_rx" "stage (sess r) = k" "0 < k" "k < 2 ^ 62" "n = unat (block_size (sess r))"
    "cl = cl_addr (sess r)" "tmo = timeout (opts (sess r))" "waits cl tmo (oper_time r) ws"
    "gives cl (data_pkt (of_nat k) bs) dt" "e_dev dt" "length bs \<le> n" "has_sink st p fl r"
    "length fl = (k - 1) * n" "length fl < 2 ^ 63"
  shows "\<exists>r'. run_loop (ws @ [dt, ak]) r = Inr r' \<and> up r' \<and> has_sink st p (fl @ bs) r' \<and> stage (sess r') = k + 1 \<and>
    sent r' = sent r @ [ack_pkt (of_nat k)] \<and> world r' = world r \<and> sock (sess r') = sock (sess r) \<and>
    opts (sess r') = opts (sess r) \<and> cl_addr (sess r') = cl_addr (sess r) \<and>
    (if length bs \<noteq> n then stat (sess r') = finish else stat (sess r') = data_rx \<and> oper_time r' = e_time ak)"
proof -
  have u: "sbuf_ok (local_buf r)" "timeout (opts (sess r)) < 2 ^ 31 - 1" using assms(1) run_invD(1) by (auto simp: up_def)
  have fm: "file_man (sess r) \<noteq> None" using assms(13) by (auto simp: has_sink_def split: option.splits)
  obtain b where b: "sbuf_ok b" "run_loop ws r = Inr (r\<lparr>local_buf := b\<rparr>)"
    using loop_waits [OF u(1) _ u(2)] assms(2,7-9) by auto
  have u1: "up (r\<lparr>local_buf := b\<rparr>)" by (rule up_update(1) [OF assms(1) b(1) fm])
  have hs: "has_sink st p fl (r\<lparr>local_buf := b\<rparr>)" using assms(13) by (simp add: has_sink_def)
  obtain d b1 where d: "sbuf_ok b1" "run_step dt (r\<lparr>local_buf := b\<rparr>) =
      Inr (r\<lparr>sess := (sess r)\<lparr>file_man := Some d, stat := ack_tx\<rparr>, local_buf := b1, last_blk_processed := (length bs \<noteq> n)\<rparr>)" (is "_ = Inr ?r1")
    "dm_writable d" "dm_stored d = fl @ bs" "filename d = p" "dm_settings d = st"
    using step_take_data [OF u1 _ _ assms(4,5) _ _ assms(11,12) hs assms(14,15)] assms(2,3,6,7,10) by auto
  have u2: "up ?r1" by (rule up_update(2) [OF assms(1) d(1) fm])
  obtain b2 where b2: "sbuf_ok b2" "run_step ak ?r1 =
      Inr (if length bs \<noteq> n
         then ?r1\<lparr>local_buf := b2, sent := sent r @ [ack_pkt (of_nat k)], sess := (sess ?r1)\<lparr>stat := finish, stage := k + 1\<rparr>\<rparr>
         else ?r1\<lparr>local_buf := b2, sent := sent r @ [ack_pkt (of_nat k)], sess := (sess ?r1)\<lparr>stat := data_rx, stage := k + 1\<rparr>, oper_time := e_time ak\<rparr>)"
    (is "_ = Inr ?r2")
    using step_send_ack [of ?r1 ak] d(1) assms(3,5) by auto
  have nf: "\<not> is_finished (sess r)" "\<not> is_finished (sess ?r1)" using assms(2) by (simp_all add: is_finished_def)
  have "run_loop (ws @ [dt, ak]) r = Inr ?r2"
    using b(2) d(2) b2(2) nf by (simp add: run_loop_append)
  then show ?thesis
    using up_update(3,4) [OF u2 b2(1)] d(3-6) by (intro exI [of _ ?r2]) (auto simp: has_sink_def)
qed

lemma loop_delivers:
  assumes "delivers cl tmo n fl t k m es" "up r" "stat (sess r) = data_rx" "stage (sess r) = k" "0 < k"
    "n = unat (block_size (sess r))" "m = last_block n fl" "k \<le> m" "length fl < 2 ^ 61" "cl = cl_addr (sess r)"
    "tmo = timeout (opts (sess r))" "t = oper_time r" "has_sink st p (take ((k - 1) * n) fl) r"
  shows "\<exists>r'. run_loop es r = Inr r' \<and> up r' \<and> has_sink st p fl r' \<and> stat (sess r') = finish \<and>
    sent r' = sent r @ map (\<lambda>k. ack_pkt (of_nat k)) [k..<Suc m] \<and> world r' = world r \<and> sock (sess r') = sock (sess r)"
  using assms
proof (induction arbitrary: r rule: delivers.induct)
  case (delivers_last t ws k dt ak)
  note p = delivers_last.prems
  have n: "0 < n" using p(1,5) by (simp add: up_def)
  have k: "k < 2 ^ 62" using p(6,8) last_block_bound [of n fl] by simp
  have pos: "(k - 1) * n \<le> length fl" using block_in_file [OF p(4), of n fl] p(6) by simp
  have short: "length (block n fl k) < n" using block_last_short [OF n, of fl] p(6) by simp
  have whole: "take ((k - 1) * n) fl @ block n fl k = fl"
    using short pos by (simp add: block_def min_def split: if_splits)
  show ?case
    using loop_delivered [OF p(1-4) k p(5,9,10) _ delivers_last.hyps(2,3) _ p(12)] delivers_last.hyps(1) p(8,11) short pos whole
    by auto
next
  case (delivers_next t ws k dt m ak es)
  note p = delivers_next.prems and h = delivers_next.hyps
  have k: "k < 2 ^ 62" using p(6,7,8) last_block_bound [of n fl] by simp
  have pos: "(k - 1) * n \<le> length fl" using block_in_file [OF p(4), of n fl] p(6,7) by simp
  have full: "length (block n fl k) = n" using block_full [OF p(4), of n fl] h(4) p(6) by simp
  have more: "take ((k - 1) * n) fl @ block n fl k = take ((Suc k - 1) * n) fl"
    using p(4) take_add [of "(k - 1) * n" n fl] by (cases k) (simp_all add: block_def add.commute)
  obtain r1 where r1: "run_loop (ws @ [dt, ak]) r = Inr r1" "up r1" "has_sink st p (take ((Suc k - 1) * n) fl) r1"
    "stage (sess r1) = Suc k" "sent r1 = sent r @ [ack_pkt (of_nat k)]" "world r1 = world r" "sock (sess r1) = sock (sess r)"
    "opts (sess r1) = opts (sess r)" "cl_addr (sess r1) = cl_addr (sess r)" "stat (sess r1) = data_rx" "oper_time r1 = e_time ak"
    using loop_delivered [OF p(1-4) k p(5,9,10) _ h(2,3) _ p(12)] h(1) p(8,11) full pos more by auto
  have n1: "n = unat (block_size (sess r1))" using p(5) block_size_opts [OF r1(8)] by simp
  obtain r2 where r2: "run_loop es r1 = Inr r2" "up r2" "has_sink st p fl r2" "stat (sess r2) = finish"
    "sent r2 = sent r1 @ map (\<lambda>k. ack_pkt (of_nat k)) [Suc k..<Suc m]" "world r2 = world r1" "sock (sess r2) = sock (sess r1)"
    using delivers_next.IH [OF r1(2,10,4) _ n1 p(6) _ p(8) _ _ _ r1(3)] h(4) p(9,10) r1(8,9,11) by auto
  have "[k..<Suc m] = k # [Suc k..<Suc m]" using h(4) by (simp add: upt_conv_Cons)
  moreover have "run_loop ((ws @ [dt, ak]) @ es) r = Inr r2" using r1(1) r2(1) by (simp only: run_loop_append sum.case)
  ultimately show ?case using r1 r2 by (simp del: upt_Suc)
qed

section \<open>The begin and the end of an upload\<close>

text \<open>The first packet: the option reply, or the acknowledgement with number 0.\<close>

definition greeting :: "options \<Rightarrow> byte list" where
  "greeting o' = (if was_set_any o' then oack_pkt o' else ack_pkt 0)"

lemma loop_greeting:
  assumes "up r" "stat (sess r) = ack_options" "o_request_type (opts (sess r)) = srv_write" "\<not> last_blk_processed r"
    "has_sink st p fl r" "length es = (if was_set_any (opts (sess r)) then 1 else 2)"
  shows "\<exists>r'. run_loop es r = Inr r' \<and> up r' \<and> has_sink st p fl r' \<and> stat (sess r') = data_rx \<and> stage (sess r') = 1 \<and>
    sent r' = sent r @ [greeting (opts (sess r))] \<and> world r' = world r \<and> sock (sess r') = sock (sess r) \<and>
    oper_time r' = e_time (last es)"
proof -
  let ?o = "opts (sess r)"
  have inv: "run_inv r" using assms(1) by (simp add: up_def)
  have fm: "file_man (sess r) \<noteq> None" using assms(5) by (auto simp: has_sink_def split: option.splits)
  obtain e es' where es: "es = e # es'" using assms(6) by (cases es) (auto split: if_splits)
  obtain b where b: "sbuf_ok b" "run_step e r =
    Inr (r\<lparr>local_buf := b, sess := (sess r)\<lparr>stat := next_state ?o, stage := first_stage ?o\<rparr>,
           oper_time := e_time e, sent := sent r @ opt_reply ?o\<rparr>)" (is "_ = Inr ?r1")
    using step_options [OF inv assms(2)] assms(3) by auto
  have u1: "up ?r1"
    using assms(1) run_step_ok [OF inv b(2)] by (auto simp: up_def was_error_def windowsize_def block_size_def)
  have nf: "\<not> is_finished (sess r)" using assms(2) by (simp add: is_finished_def)
  show ?thesis
  proof (cases "was_set_any ?o")
    case True
    then show ?thesis
      using es b(2) u1 assms(3,5,6) nf
      by (auto simp: next_state_def first_stage_def opt_reply_def greeting_def has_sink_def)
  next
    case False
    then obtain e' where e': "es' = [e']" using assms(6) es by (cases es') auto
    have s1: "stat (sess ?r1) = ack_tx" "stage (sess ?r1) = 0" "sent ?r1 = sent r"
      using False assms(3) by (simp_all add: next_state_def first_stage_def opt_reply_def)
    obtain b' where b': "sbuf_ok b'" "run_step e' ?r1 =
        Inr (?r1\<lparr>local_buf := b', sent := sent r @ [ack_pkt 0], sess := (sess ?r1)\<lparr>stat := data_rx, stage := 1\<rparr>, oper_time := e_time e'\<rparr>)"
      (is "_ = Inr ?r2") using step_send_ack [of ?r1 e'] b(1) s1 assms(4) by auto
    have "up ?r2" by (rule up_update(4) [OF u1 b'(1)]) (use fm in simp)
    moreover have "run_loop es r = Inr ?r2"
      using es e' b(2) b'(2) nf s1(1) by (simp add: is_finished_def)
    ultimately show ?thesis
      using False es e' assms(5) by (intro exI [of _ ?r2]) (simp add: greeting_def has_sink_def)
  qed
qed

lemma dm_init_created:
  assumes "o_request_type opt = srv_write" "p = path_append (get_root_dir st) (o_filename opt)"
    "fs_stat fs p = Inr None" "fs_creatable fs (until_zero p)"
  shows "\<exists>d. dm_init fs st dmf_new opt = Inr (True, None, d, fs_set fs p []) \<and> dm_writable d \<and> dm_stored d = [] \<and>
    filename d = p \<and> dm_settings d = st"
  using assms
  by (simp add: dm_init_def init_write_def Let_def fs_exists_def dm_writable_def dm_stored_def ofs_opened_def)

lemma fs_set_twice: "fs_set (fs_set fs p bs) p bs' = fs_set fs p bs'"
  by (simp add: fs_set_def)

text \<open>The calls at the end of an upload.\<close>

definition end_calls :: "settings \<Rightarrow> filesys \<Rightarrow> path \<Rightarrow> fs_call list" where
  "end_calls st fs p =
     (if file_chown_user st \<noteq> [] \<or> file_chown_grp st \<noteq> []
      then [Chown (until_zero p) (get_uid_by_name (fs_uid fs) (file_chown_user st)) (get_gid_by_name (fs_gid fs) (file_chown_grp st))]
      else []) @ [Permissions (until_zero p) (close_perms (file_chmod st))]"

lemma run_end_sink:
  assumes "has_sink st p fl r"
  shows "\<exists>d. run_end True r = Inr (r\<lparr>sess := (sess r)\<lparr>file_man := Some d\<rparr>, world := fs_set (world r) p fl\<rparr>,
    Close_fd (sock (sess r)) # end_calls st (world r) p)"
proof -
  obtain d where d: "file_man (sess r) = Some d" "dm_writable d" "dm_stored d = fl" "filename d = p" "dm_settings d = st"
    using assms by (auto simp: has_sink_def split: option.splits)
  have "\<exists>d'. dm_close (world r) d True = Inr (d', fs_set (world r) p fl, end_calls st (world r) p)"
    using d(2-5)
    by (auto simp: dm_close_def Let_def ofs_close_def dm_writable_def dm_stored_def end_calls_def
        get_file_chown_user_def get_file_chown_grp_def get_file_chmod_def)
  then show ?thesis using d(1) by (auto simp: run_end_def socket_close_def)
qed

lemma end_calls_set: "end_calls st (fs_set fs p bs) q = end_calls st fs q"
  by (simp add: end_calls_def fs_set_def)

section \<open>Properties of uploads\<close>

text \<open>The loop of an upload.\<close>

lemma upload_loop:
  assumes "what_ok fs" "prepare (session_new st) ad pkt n = Inr (True, s)" "o_request_type (opts s) = srv_write"
    "p = path_append (get_root_dir st) (o_filename (opts s))" "fs_stat fs p = Inr None" "fs_creatable fs (until_zero p)"
    "length fl < 2 ^ 61" "windowsize s = 1" "bs = unat (block_size s)" "0 < bs" "bs \<le> 65531" "timeout (opts s) < 2 ^ 31 - 1"
    "0 \<le> e_socket e0" "e_bind e0 \<noteq> - 1" "length es0 = (if was_set_any (opts s) then 1 else 2)"
    "delivers ad (timeout (opts s)) bs fl (e_time (last es0)) 1 (last_block bs fl) es"
  obtains r where "run_loop (e0 # es0 @ es) (run_start fs s) = Inr r" "is_finished (sess r)" "\<not> was_error (sess r)" "has_sink st p fl r"
    "sent r = (if was_set_any (opts s) then oack_pkt (opts s) else ack_pkt 0) #
       map (\<lambda>k. ack_pkt (of_nat k)) [1..<Suc (last_block bs fl)]"
    "world r = fs_set fs p []" "sock (sess r) = e_socket e0"
proof -
  obtain d where d: "dm_init fs st dmf_new (opts s) = Inr (True, None, d, fs_set fs p [])" "dm_writable d" "dm_stored d = []"
    "filename d = p" "dm_settings d = st" using dm_init_created [OF assms(3-6)] by blast
  obtain r0 where st0: "run_step e0 (run_start fs s) = Inr r0" and i0: "run_inv r0"
    and o0: "stat (sess r0) = ack_options" "\<not> was_error (sess r0)" "opts (sess r0) = opts s" "cl_addr (sess r0) = ad"
      "sock (sess r0) = e_socket e0" "sent r0 = []" "world r0 = fs_set fs p []" "\<not> last_blk_processed r0"
    and b0: "block_size (sess r0) = block_size s" "windowsize (sess r0) = windowsize s" "file_man (sess r0) = Some d"
    and nf: "\<not> is_finished (sess (run_start fs s))"
    by (rule session_begins [OF assms(1,2,13,14) d(1)])
  have u0: "up r0" using i0 o0 b0 assms(8-12) by (simp add: up_def)
  have s0: "has_sink st p [] r0" using d b0(3) by (simp add: has_sink_def)
  obtain r1 where r1: "run_loop es0 r0 = Inr r1" "up r1" "has_sink st p [] r1" "stat (sess r1) = data_rx"
    "stage (sess r1) = 1" "sent r1 = [greeting (opts s)]" "world r1 = fs_set fs p []" "sock (sess r1) = e_socket e0"
    "oper_time r1 = e_time (last es0)"
    using loop_greeting [OF u0 o0(1) _ o0(8) s0, of es0] o0 assms(3,15) by auto
  have k1: "opts (sess r1) = opts s" "cl_addr (sess r1) = ad"
    using reach_kept [OF run_loop_reach [OF r1(1)] i0] o0 by auto
  have bs1: "bs = unat (block_size (sess r1))" using assms(9) block_size_opts [OF k1(1)] by simp
  obtain r2 where r2: "run_loop es r1 = Inr r2" "up r2" "has_sink st p fl r2" "stat (sess r2) = finish"
    "sent r2 = greeting (opts s) # map (\<lambda>k. ack_pkt (of_nat k)) [1..<Suc (last_block bs fl)]"
    "world r2 = fs_set fs p []" "sock (sess r2) = e_socket e0"
    using loop_delivers [OF assms(16) r1(2,4,5) _ bs1 refl _ assms(7), of st p] r1 k1 by (auto simp: last_block_def)
  have loop: "run_loop (e0 # es0 @ es) (run_start fs s) = Inr r2"
    unfolding run_loop_1 [OF nf st0] run_loop_append r1(1) using r2(1) by simp
  show ?thesis
    by (rule that [OF loop]) (use r2 in \<open>simp_all add: up_def greeting_def is_finished_def del: upt_Suc\<close>)
qed

lemma upload_ends:
  assumes "what_ok fs" "prepare (session_new st) ad pkt n = Inr (True, s)" "o_request_type (opts s) = srv_write"
    "p = path_append (get_root_dir st) (o_filename (opts s))" "fs_stat fs p = Inr None" "fs_creatable fs (until_zero p)"
    "length fl < 2 ^ 61" "windowsize s = 1" "bs = unat (block_size s)" "0 < bs" "bs \<le> 65531" "timeout (opts s) < 2 ^ 31 - 1"
    "0 \<le> e_socket e0" "e_bind e0 \<noteq> - 1" "length es0 = (if was_set_any (opts s) then 1 else 2)"
    "delivers ad (timeout (opts s)) bs fl (e_time (last es0)) 1 (last_block bs fl) es"
  shows "\<exists>r. run (e0 # es0 @ es) True fs s = Inr (Some (r, Close_fd (e_socket e0) # end_calls st fs p)) \<and>
    world r = fs_set fs p fl \<and>
    sent r = (if was_set_any (opts s) then oack_pkt (opts s) else ack_pkt 0) #
             map (\<lambda>k. ack_pkt (of_nat k)) [1..<Suc (last_block bs fl)] \<and>
    \<not> was_error (sess r)"
proof -
  obtain r where r: "run_loop (e0 # es0 @ es) (run_start fs s) = Inr r" "is_finished (sess r)" "\<not> was_error (sess r)" "has_sink st p fl r"
    "sent r = (if was_set_any (opts s) then oack_pkt (opts s) else ack_pkt 0) #
       map (\<lambda>k. ack_pkt (of_nat k)) [1..<Suc (last_block bs fl)]"
    "world r = fs_set fs p []" "sock (sess r) = e_socket e0"
    by (rule upload_loop [OF assms])
  obtain d where "run_end True r = Inr (r\<lparr>sess := (sess r)\<lparr>file_man := Some d\<rparr>, world := fs_set fs p fl\<rparr>,
      Close_fd (e_socket e0) # end_calls st fs p)" (is "_ = Inr (?r, _)")
    using run_end_sink [OF r(4)] r(6,7) by (auto simp: fs_set_twice end_calls_set)
  then have "run (e0 # es0 @ es) True fs s = Inr (Some (?r, Close_fd (e_socket e0) # end_calls st fs p))"
    unfolding run_def r(1) using r(2) by simp
  then show ?thesis using r(3,5) by (intro exI [of _ ?r]) (simp del: upt_Suc)
qed

text \<open>
  C4. An upload stores the file. If nothing exists at the path of the request below the root directory
  and a file can be created there, the socket can be opened, the window is one block, and the client
  sends the blocks of \<open>fl\<close> in time, each after the previous one was acknowledged, then \<open>run\<close> ends
  without error: it has sent the option reply (or the acknowledgement with number 0) and the
  acknowledgements of all blocks in order, the file system is changed exactly by a new file with the
  content \<open>fl\<close>, the socket is closed, and owner and permissions of the file are set as configured.
\<close>

theorem upload_complete:
  assumes "what_ok fs" "prepare (session_new st) ad pkt n = Inr (True, s)" "o_request_type (opts s) = srv_write"
    "p = path_append (get_root_dir st) (o_filename (opts s))" "fs_stat fs p = Inr None" "fs_creatable fs (until_zero p)"
    "length fl < 2 ^ 61" "windowsize s = 1" "bs = unat (block_size s)" "0 < bs" "bs \<le> 65531" "timeout (opts s) < 2 ^ 31 - 1"
    "0 \<le> e_socket e0" "e_bind e0 \<noteq> - 1" "length es0 = (if was_set_any (opts s) then 1 else 2)"
    "delivers ad (timeout (opts s)) bs fl (e_time (last es0)) 1 (last_block bs fl) es"
  shows "\<exists>r. run (e0 # es0 @ es) True fs s = Inr (Some (r, Close_fd (e_socket e0) # end_calls st fs p)) \<and>
    world r = fs_set fs p fl \<and>
    sent r = (if was_set_any (opts s) then oack_pkt (opts s) else ack_pkt 0) #
             map (\<lambda>k. ack_pkt (of_nat k)) [1..<Suc (last_block bs fl)] \<and>
    \<not> was_error (sess r)"
  using upload_ends [OF assms] .

text \<open>An upload of three bytes in blocks of two.\<close>

definition demo_write_request :: "byte list" where
  "demo_write_request = request_bytes 2 ''new.bin'' ''octet'' [(''blksize'', ''2'')]"

lemma demo_write_prepared:
  "prepare (session_new demo_sett) demo_client demo_write_request (length demo_write_request) =
     Inr (True, demo_prepared demo_write_request)"
  by (rule demo_prepared) code_simp

lemma demo_write_opts:
  "opts (demo_prepared demo_write_request) =
     options_new\<lparr>o_request_type := srv_write, o_filename := ''new.bin'', o_transfer_mode := tm_octet, o_blksize := (True, 2)\<rparr>"
  by code_simp

lemma demo_new_file:
  "path_append (get_root_dir demo_sett) ''new.bin'' = ''/r/new.bin''" "fs_stat demo_read_fs ''/r/new.bin'' = Inr None"
  "fs_creatable demo_read_fs (until_zero ''/r/new.bin'')" "until_zero ''/r/new.bin'' = ''/r/new.bin''"
  "end_calls demo_sett demo_read_fs ''/r/new.bin'' = [Permissions ''/r/new.bin'' 436]"
  by code_simp+

lemma demo_delivered: "waits demo_client 10 t []" "gives demo_client pkt (from_client t pkt)" "e_dev (from_client t pkt)"
  by (simp_all add: waits_def gives_def from_client_def quiet_def demo_client_rx)

abbreviation demo_upload_inputs :: "env list" where
  "demo_upload_inputs \<equiv> quiet 0 # [quiet 1] @ [from_client 2 (data_pkt 1 ''xy''), quiet 2, from_client 3 (data_pkt 2 ''z''), quiet 3]"

lemma demo_upload:
  defines "s \<equiv> demo_prepared demo_write_request"
  shows "o_request_type (opts s) = srv_write" "''/r/new.bin'' = path_append (get_root_dir demo_sett) (o_filename (opts s))"
    "fs_stat demo_read_fs ''/r/new.bin'' = Inr None" "fs_creatable demo_read_fs (until_zero ''/r/new.bin'')"
    "length ''xyz'' < 2 ^ 61" "windowsize s = 1" "2 = unat (block_size s)" "0 < (2 :: nat)" "(2 :: nat) \<le> 65531"
    "timeout (opts s) < 2 ^ 31 - 1" "0 \<le> e_socket (quiet 0)" "e_bind (quiet 0) \<noteq> - 1"
    "length [quiet 1] = (if was_set_any (opts s) then 1 else 2)"
    "delivers demo_client (timeout (opts s)) 2 ''xyz'' (e_time (last [quiet 1])) 1 (last_block 2 ''xyz'')
       [from_client 2 (data_pkt 1 ''xy''), quiet 2, from_client 3 (data_pkt 2 ''z''), quiet 3]"
    "was_set_any (opts s)" "e_socket (quiet 0) = 5" "last_block 2 ''xyz'' = 2"
proof -
  show o: "windowsize s = 1" "2 = unat (block_size s)" "was_set_any (opts s)" "o_request_type (opts s) = srv_write"
    "''/r/new.bin'' = path_append (get_root_dir demo_sett) (o_filename (opts s))" "timeout (opts s) < 2 ^ 31 - 1"
    using demo_new_file(1) by (simp_all add: s_def demo_write_opts opt_eval)
  have t: "timeout (opts s) = 10" by (simp add: s_def demo_write_opts opt_eval)
  have b: "last_block 2 ''xyz'' = 2" "block 2 ''xyz'' 1 = ''xy''" "block 2 ''xyz'' 2 = ''z''" by code_simp+
  have l: "delivers demo_client 10 2 ''xyz'' t (Suc 1) 2 ([] @ [from_client 3 (data_pkt 2 ''z''), quiet 3])" for t
    using delivers_last [OF demo_delivered(1), of 2 2 "''xyz''" "from_client 3 (data_pkt 2 ''z'')"] demo_delivered b(3)
    by (simp add: numeral_2_eq_2)
  have "delivers demo_client 10 2 ''xyz'' (e_time (last [quiet 1])) 1 2
      (([] @ [from_client 2 (data_pkt 1 ''xy''), quiet 2]) @ [] @ [from_client 3 (data_pkt 2 ''z''), quiet 3])"
    by (rule delivers_next [OF demo_delivered(1) _ _ _ l]) (use b demo_delivered in simp_all)
  then show "delivers demo_client (timeout (opts s)) 2 ''xyz'' (e_time (last [quiet 1])) 1 (last_block 2 ''xyz'')
       [from_client 2 (data_pkt 1 ''xy''), quiet 2, from_client 3 (data_pkt 2 ''z''), quiet 3]"
    by (simp add: t b(1))
  show "last_block 2 ''xyz'' = 2" by (rule b(1))
  show "length [quiet 1] = (if was_set_any (opts s) then 1 else 2)" using o(3) by simp
qed (use demo_new_file in \<open>simp_all add: quiet_def\<close>)

theorem upload_complete_witness:
  "\<exists>r. run demo_upload_inputs True demo_read_fs (demo_prepared demo_write_request) =
       Inr (Some (r, [Close_fd 5, Permissions ''/r/new.bin'' 436])) \<and>
     fs_stat (world r) ''/r/new.bin'' = Inr (Some (Reg ''xyz'')) \<and>
     sent r = [oack_pkt (opts (demo_prepared demo_write_request)), ack_pkt 1, ack_pkt 2]"
  using upload_complete [OF what_ok_demo demo_write_prepared demo_upload(1-14)]
  unfolding demo_upload(16,17) demo_new_file(5) using demo_upload(15) demo_new_file(4)
  by (auto simp: fs_stat_def fs_set_def numeral_2_eq_2)

end
