(* ===== verification/Silence.thy ===== *)
theory Silence
  imports Traffic
begin

text \<open>
  A client that goes silent. From any state a session can reach, if from then on nothing arrives from
  the client and the clock goes on, the loop ends: the measure is the number of retransmissions left,
  then the position in the cycle of sending, waiting and repeating.
\<close>

section \<open>Endless inputs\<close>

definition silent :: "addr \<Rightarrow> (nat \<Rightarrow> env) \<Rightarrow> bool" where
  "silent cl es \<longleftrightarrow> (\<forall>i. ignored cl (es i))"

definition clock_runs :: "(nat \<Rightarrow> env) \<Rightarrow> bool" where
  "clock_runs es \<longleftrightarrow> (\<forall>t j. \<exists>i \<ge> j. t \<le> e_time (es i))"

definition ends :: "(nat \<Rightarrow> env) \<Rightarrow> run_state \<Rightarrow> bool" where
  "ends es r \<longleftrightarrow> (\<exists>n r'. run_loop (map es [0..<n]) r = Inr r' \<and> is_finished (sess r'))"

abbreviation shift :: "nat \<Rightarrow> (nat \<Rightarrow> env) \<Rightarrow> nat \<Rightarrow> env" where
  "shift n es \<equiv> \<lambda>i. es (i + n)"

lemma silent_shift: "silent cl es \<Longrightarrow> silent cl (shift n es)"
  by (simp add: silent_def)

lemma clock_runs_shift: "clock_runs es \<Longrightarrow> clock_runs (shift n es)"
  unfolding clock_runs_def
proof (intro allI)
  fix t j
  assume "\<forall>t j. \<exists>i \<ge> j. t \<le> e_time (es i)"
  then obtain i where "j + n \<le> i" "t \<le> e_time (es i)" by blast
  then show "\<exists>i \<ge> j. t \<le> e_time (es (i + n))" by (intro exI [of _ "i - n"]) auto
qed

lemma map_shift: "map es [0..<n + m] = map es [0..<n] @ map (shift n es) [0..<m]"
proof -
  have "[n..<n + m] = map (\<lambda>i. i + n) [0..<m]" using map_add_upt [of n m] by (simp add: add.commute)
  then show ?thesis using upt_add_eq_append [of 0 n m] by (simp add: comp_def)
qed

lemma ends_later:
  assumes "run_loop (map es [0..<n]) r = Inr r'" "ends (shift n es) r'"
  shows "ends es r"
proof -
  obtain m r'' where "run_loop (map (shift n es) [0..<m]) r' = Inr r''" "is_finished (sess r'')"
    using assms(2) by (auto simp: ends_def)
  then have "run_loop (map es [0..<n + m]) r = Inr r''"
    using assms(1) by (simp add: map_shift run_loop_append)
  then show ?thesis using \<open>is_finished (sess r'')\<close> unfolding ends_def by blast
qed

section \<open>Progress\<close>

text \<open>What a session needs to go on without its client.\<close>

definition calm :: "run_state \<Rightarrow> bool" where
  "calm r \<longleftrightarrow> run_inv r \<and> retr_inv r \<and> retransmit_count (sess_settings (sess r)) < 0xFFFF \<and>
     timeout (opts (sess r)) < 2 ^ 31 - 1 \<and> file_man (sess r) \<noteq> None \<and>
     (read_safe r \<and> windowsize (sess r) = 1 \<or>
      o_request_type (opts (sess r)) = srv_write \<and> stat (sess r) \<notin> {need_init, data_tx, ack_rx})"

fun rank :: "state \<Rightarrow> nat" where
  "rank ack_options = 3"
| "rank data_tx = 2"
| "rank ack_tx = 2"
| "rank ack_rx = 1"
| "rank data_rx = 1"
| "rank _ = 0"

definition progress :: "run_state \<Rightarrow> nat" where
  "progress r = 4 * (unat (retransmit_count (sess_settings (sess r))) + 1 - unat (retr_count r)) + rank (stat (sess r))"

text \<open>An upload never leaves its states; a download neither.\<close>

lemma write_states:
  assumes "o_request_type (opts (sess r)) = srv_write" "stat (sess r) \<notin> {need_init, data_tx, ack_rx}" "run_inv r"
    "run_step e r = Inr r'"
  shows "stat (sess r') \<notin> {need_init, data_tx, ack_rx}"
proof (cases "stat (sess r)")
  case ack_options
  then show ?thesis
    using assms by (auto simp: run_step_def step_ack_options_def Let_def goto_state_stat split: sum.splits if_splits)
next
  case retransmit
  then show ?thesis using assms by (auto simp: run_step_def step_retransmit_def Let_def goto_state_stat split: if_splits)
next
  case finish
  then show ?thesis using assms by (simp add: run_step_def)
qed (use run_step_ok [OF assms(3,4)] assms(2) in \<open>auto simp: step_rel_def\<close>)

lemma calm_kept:
  assumes "calm r" "\<not> is_finished (sess r)" "run_step e r = Inr r'"
  shows "calm r'"
proof -
  have i: "run_inv r" "retr_inv r" "retransmit_count (sess_settings (sess r)) < 0xFFFF" using assms(1) by (auto simp: calm_def)
  have rel: "step_rel r r'" "run_inv r'" using run_step_ok [OF i(1) assms(3)] by auto
  have "retr_inv r'" using retr_inv_step [OF i iterate [OF assms(2,3)]] .
  moreover have "read_safe r \<Longrightarrow> read_safe r'" using read_safe_step [of r e] assms(3) by auto
  ultimately show ?thesis
    using assms(1) rel write_states [OF _ _ i(1) assms(3)] windowsize_opts [of "sess r'" "sess r"]
    by (auto simp: calm_def step_rel_def)
qed

lemma write_step_total:
  assumes "run_inv r" "o_request_type (opts (sess r)) = srv_write" "stat (sess r) \<in> {ack_options, ack_tx, retransmit, error_and_stop}"
  shows "\<exists>r'. run_step e r = Inr r'"
proof -
  note i = run_invD [OF assms(1)]
  consider (o) "stat (sess r) = ack_options" | (a) "stat (sess r) = ack_tx" | (r) "stat (sess r) = retransmit"
    | (e) "stat (sess r) = error_and_stop" using assms(3) by blast
  then show ?thesis
  proof cases
    case o
    then show ?thesis using step_options [OF assms(1), of e] assms(2) by auto
  next
    case a
    obtain b where "construct_ack (sess r) (local_buf r) = Inr b" using construct_ack_eq [OF i(1)] by blast
    then show ?thesis using a by (simp add: run_step_def step_ack_tx_def Let_def)
  next
    case r
    then show ?thesis by (simp add: run_step_def step_retransmit_def Let_def)
  next
    case e
    have "length (error_message (sess r)) \<le> 65530" using i(4) by simp
    then show ?thesis
      using e construct_error_eq [OF i(1)] by (cases "was_error (sess r)") (simp_all add: run_step_def step_error_and_stop_def)
  qed
qed

lemma calm_step_total:
  assumes "calm r" "stat (sess r) \<notin> {ack_rx, data_rx, finish}"
  shows "\<exists>r'. run_step e r = Inr r'"
proof (cases "read_safe r")
  case True
  then show ?thesis using read_safe_step by blast
next
  case False
  then have "run_inv r" "o_request_type (opts (sess r)) = srv_write" "stat (sess r) \<notin> {need_init, data_tx, ack_rx}"
    using assms(1) by (auto simp: calm_def)
  then show ?thesis using write_step_total [of r e] assms(2) by (cases "stat (sess r)") auto
qed

text \<open>The states that follow each other.\<close>

lemma after_data_tx:
  assumes "stat (sess r) = data_tx" "run_step e r = Inr r'" "windowsize (sess r) = 1" "run_inv r"
  shows "stat (sess r') \<in> {ack_rx, error_and_stop, finish}"
proof -
  obtain s b where c: "construct_data (sess r) (local_buf r) = Inr (s, b)"
    using assms(1,2) by (auto simp: run_step_def step_data_tx_def split: sum.splits)
  have s: "stat s = data_tx" "opts s = opts (sess r)"
    using construct_data_frame(1) [OF run_invD(1) [OF assms(4)] c] assms(1) by (auto simp: same_session_def)
  then have "is_window_close s (stage s)" using windowsize_opts [OF s(2)] assms(3) by (simp add: is_window_close_def)
  then show ?thesis
    using assms(1,2) c s(1) by (auto simp: run_step_def step_data_tx_def Let_def goto_state_stat split: if_splits)
qed

lemma after_ack_options:
  assumes "stat (sess r) = ack_options" "run_step e r = Inr r'"
  shows "rank (stat (sess r')) \<le> 2"
  using assms
  by (auto simp: run_step_def step_ack_options_def Let_def goto_state_stat split: sum.splits if_splits srv_req.splits)

lemma after_ack_tx:
  assumes "stat (sess r) = ack_tx" "run_step e r = Inr r'"
  shows "stat (sess r') \<in> {data_rx, finish}"
  using assms by (auto simp: run_step_def step_ack_tx_def Let_def goto_state_stat split: sum.splits if_splits)

lemma after_error_and_stop:
  assumes "stat (sess r) = error_and_stop" "run_step e r = Inr r'"
  shows "stat (sess r') = finish"
  using assms
  by (auto simp: run_step_def step_error_and_stop_def construct_error_def Let_def goto_state_stat split: sum.splits if_splits)

lemma after_retransmit:
  assumes "stat (sess r) = retransmit" "run_step e r = Inr r'"
  shows "rank (stat (sess r')) \<le> 2"
  using assms by (auto simp: run_step_def step_retransmit_def Let_def goto_state_stat split: if_splits srv_req.splits)

lemma progress_step:
  assumes "calm r" "stat (sess r) \<notin> {ack_rx, data_rx, finish}" "run_step e r = Inr r'"
  shows "stat (sess r') = finish \<or> progress r' < progress r"
proof -
  have inv: "run_inv r" and cnt: "retransmit_count (sess_settings (sess r)) < 0xFFFF" and ri: "retr_inv r"
    using assms(1) by (auto simp: calm_def)
  have rel: "sess_settings (sess r') = sess_settings (sess r)"
    "retr_count r' = retr_count r + (if stat (sess r) = retransmit then 1 else 0)"
    using run_step_ok [OF inv assms(3)] by (auto simp: step_rel_def)
  have "stat (sess r) \<noteq> need_init" using assms(1) by (auto simp: calm_def read_safe_def)
  then consider (o) "stat (sess r) = ack_options" | (d) "stat (sess r) = data_tx" | (a) "stat (sess r) = ack_tx"
    | (e) "stat (sess r) = error_and_stop" | (r) "stat (sess r) = retransmit"
    using assms(2) by (cases "stat (sess r)") auto
  then show ?thesis
  proof cases
    case o
    then show ?thesis using after_ack_options [OF o assms(3)] rel by (simp add: progress_def)
  next
    case d
    then have "windowsize (sess r) = 1" using assms(1) by (auto simp: calm_def)
    then show ?thesis using after_data_tx [OF d assms(3) _ inv] rel d by (auto simp: progress_def)
  next
    case a
    then show ?thesis using after_ack_tx [OF a assms(3)] rel by (auto simp: progress_def)
  next
    case e
    then show ?thesis using after_error_and_stop [OF e assms(3)] by simp
  next
    case r
    let ?m = "unat (retransmit_count (sess_settings (sess r)))"
    have n: "unat (retr_count r) \<le> ?m" using ri r by (auto simp: retr_inv_def Let_def)
    have "?m < 0xFFFF" using cnt by (simp add: word_less_nat_alt)
    then have "unat (retr_count r') = unat (retr_count r) + 1" using n rel(2) r by (simp add: unat_word_ariths)
    then show ?thesis
      using after_retransmit [OF r assms(3)] rel(1) r n by (simp add: progress_def Suc_diff_le)
  qed
qed

text \<open>Waiting ends with a timeout.\<close>

lemma wait_ends:
  assumes "calm r" "stat (sess r) \<in> {ack_rx, data_rx}" "silent (cl_addr (sess r)) es" "clock_runs es"
  shows "\<exists>n r'. run_loop (map es [0..<n]) r = Inr r' \<and> calm r' \<and> progress r' < progress r \<and>
    cl_addr (sess r') = cl_addr (sess r)"
proof -
  let ?late = "\<lambda>i. timeout (opts (sess r)) + 1 \<le> e_time (es i) - oper_time r"
  obtain j where "?late j"
    using assms(4) unfolding clock_runs_def by (metis add_le_imp_le_diff add.commute le_diff_eq)
  define n where "n = (LEAST i. ?late i)"
  have n: "?late n" "\<And>i. i < n \<Longrightarrow> \<not> ?late i"
    unfolding n_def using LeastI [of ?late, OF \<open>?late j\<close>] not_less_Least by blast+
  have c: "sbuf_ok (local_buf r)" "timeout (opts (sess r)) < 2 ^ 31 - 1" using assms(1) run_invD(1) by (auto simp: calm_def)
  have "waits (cl_addr (sess r)) (timeout (opts (sess r))) (oper_time r) (map es [0..<n])"
    using assms(3) n(2) by (force simp: waits_def silent_def not_le)
  then obtain b where b: "sbuf_ok b" "run_loop (map es [0..<n]) r = Inr (r\<lparr>local_buf := b\<rparr>)" (is "_ = Inr ?r1")
    using loop_waits [OF c(1) _ c(2)] assms(2) by blast
  obtain b' where b': "run_step (es n) ?r1 = Inr (goto_state retransmit (?r1\<lparr>local_buf := b'\<rparr>))" (is "_ = Inr ?r2")
    using step_ignored [of ?r1 "es n"] b(1) c(2) n(1) assms(2,3) by (auto simp: silent_def)
  have nf: "\<not> is_finished (sess ?r1)" using assms(2) by (auto simp: is_finished_def)
  have "sess_reach r ?r1" by (rule run_loop_reach [OF b(2)])
  have "calm ?r1" using assms(1) b(1) by (auto simp: calm_def run_inv_def retr_inv_def read_safe_def)
  then have "calm ?r2" by (rule calm_kept [OF _ nf b'])
  moreover have "run_loop (map es [0..<Suc n]) r = Inr ?r2"
    using b(2) b' nf by (simp add: run_loop_append)
  moreover have "progress ?r2 < progress r" using assms(2) by (auto simp: progress_def goto_state_stat)
  ultimately show ?thesis by (intro exI [of _ "Suc n"] exI [of _ ?r2]) simp
qed

lemma calm_ends:
  assumes "calm r" "silent (cl_addr (sess r)) es" "clock_runs es"
  shows "ends es r"
  using assms
proof (induction "progress r" arbitrary: r es rule: less_induct)
  case less
  note p = less.prems
  consider (f) "stat (sess r) = finish" | (w) "stat (sess r) \<in> {ack_rx, data_rx}" | (s) "stat (sess r) \<notin> {ack_rx, data_rx, finish}"
    by blast
  then show ?case
  proof cases
    case f
    then show ?thesis unfolding ends_def by (intro exI [of _ 0] exI [of _ r]) (simp add: is_finished_def)
  next
    case w
    obtain n r' where r': "run_loop (map es [0..<n]) r = Inr r'" "calm r'" "progress r' < progress r"
      "cl_addr (sess r') = cl_addr (sess r)" using wait_ends [OF p(1) w p(2,3)] by blast
    then have "ends (shift n es) r'" using less.hyps silent_shift clock_runs_shift p(2,3) by metis
    then show ?thesis by (rule ends_later [OF r'(1)])
  next
    case s
    have nf: "\<not> is_finished (sess r)" using s by (simp add: is_finished_def)
    obtain r' where r': "run_step (es 0) r = Inr r'" using calm_step_total [OF p(1) s] by blast
    have c: "calm r'" by (rule calm_kept [OF p(1) nf r'])
    have "run_inv r" using p(1) by (simp add: calm_def)
    then have a: "cl_addr (sess r') = cl_addr (sess r)" using run_step_ok [OF _ r'] by (simp add: step_rel_def)
    have l: "run_loop (map es [0..<1]) r = Inr r'" using r' nf by simp
    have "ends (shift 1 es) r'"
    proof (cases "stat (sess r') = finish")
      case True
      then show ?thesis unfolding ends_def by (intro exI [of _ 0] exI [of _ r']) (simp add: is_finished_def)
    next
      case False
      then have "progress r' < progress r" using progress_step [OF p(1) s r'] by blast
      then show ?thesis using less.hyps c a silent_shift clock_runs_shift p(2,3) by metis
    qed
    then show ?thesis by (rule ends_later [OF l])
  qed
qed

section \<open>The property\<close>

lemma calm_reach: "sess_reach r r' \<Longrightarrow> calm r \<Longrightarrow> calm r'"
  by (induction rule: sess_reach.induct) (auto elim!: sess_step.cases intro: calm_kept)

lemma write_first_step:
  assumes "stat (sess r) = need_init" "run_step e r = Inr r'" "stat (sess r') \<noteq> finish" "run_inv r"
  shows "stat (sess r') \<in> {error_and_stop, ack_options}" "file_man (sess r') \<noteq> None"
proof -
  obtain ret s fs where i: "sess_init e (world r) (sess r) = Inr (ret, s, fs)"
    using assms(1,2) by (auto simp: run_step_def step_need_init_def split: sum.splits)
  note f = sess_init_frame [OF i run_invD(3) [OF assms(4)]]
  have s: "stat s = need_init" using f(1) assms(1) by (simp add: same_session_def)
  then show "stat (sess r') \<in> {error_and_stop, ack_options}" "file_man (sess r') \<noteq> None"
    using assms(1-3) i f(3) by (auto simp: run_step_def step_need_init_def Let_def goto_state_stat split: if_splits)
qed



end
