(* ===== verification/UploadStore.thy ===== *)
theory UploadStore
  imports Simulation Upload Silence
begin

text \<open>
  What an upload stores, for every client and every network. The specification is a store whose state
  is the content of the file alone: in each iteration of the session it stays as it is, or one DATA
  packet of the client is written at the place of its block. The loop of \<open>Session::run\<close> refines it.
\<close>

section \<open>The block store\<close>

text \<open>The number and the payload of a DATA packet that arrived from the client.\<close>

definition block_of :: "addr \<Rightarrow> env \<Rightarrow> (u16 \<times> byte list) option" where
  "block_of cl e =
     (case e_rx e of
        Rx_errno _ \<Rightarrow> None
      | Rx_pkt pkt fr \<Rightarrow>
          if rx_client fr = a_bytes cl \<and> pkt_field pkt 0 = 3 then Some (pkt_field pkt 2, drop 4 (rx_cut pkt)) else None)"

inductive store_step :: "addr \<Rightarrow> nat \<Rightarrow> env \<Rightarrow> byte list \<Rightarrow> byte list \<Rightarrow> bool" for cl n where
  store_skip: "store_step cl n e c c"
| store_block: "block_of cl e = Some (of_nat k, bs) \<Longrightarrow> 0 < k \<Longrightarrow> store_step cl n e c (overlay c ((k - 1) * n) bs)"

section \<open>The session\<close>

text \<open>
  The data manager of an upload: its stream is good until the session is about to end, and the stage
  is positive while the session waits for a block.
\<close>

definition sink :: "path \<Rightarrow> filesys \<Rightarrow> dmf \<Rightarrow> bool \<Rightarrow> run_state \<Rightarrow> bool" where
  "sink p fs d good r \<longleftrightarrow> filename d = p \<and> (good \<longrightarrow> dm_writable d) \<and>
     (if os_opened (file_out d) then fs_stat fs p = Inr None \<and> world r = fs_set fs p [] else world r = fs)"

definition storing :: "path \<Rightarrow> filesys \<Rightarrow> run_state \<Rightarrow> bool" where
  "storing p fs r \<longleftrightarrow> run_inv r \<and> o_request_type (opts (sess r)) = srv_write \<and>
     stat (sess r) \<notin> {need_init, data_tx, ack_rx} \<and> (stat (sess r) = data_rx \<longrightarrow> 0 < stage (sess r)) \<and>
     (case file_man (sess r) of None \<Rightarrow> False
      | Some d \<Rightarrow> sink p fs d (stat (sess r) \<notin> {finish, error_and_stop}) r)"

definition content_of :: "run_state \<Rightarrow> byte list" where
  "content_of r = (case file_man (sess r) of None \<Rightarrow> [] | Some d \<Rightarrow> dm_stored d)"

text \<open>The position of a block; before the first one there is none.\<close>

lemma blk_pos_range:
  assumes "stage s < 2 ^ 46" "0 < unat (block_size s)"
  shows "blk_pos s < 2 ^ 64" "2 ^ 63 \<le> blk_pos s \<longleftrightarrow> stage s = 0"
    "0 < stage s \<Longrightarrow> blk_pos s = (stage s - 1) * unat (block_size s)"
proof -
  let ?n = "unat (block_size s)"
  have n: "?n < 2 ^ 16" by (rule order_less_le_trans [OF unsigned_less]) simp
  show 1: "blk_pos s < 2 ^ 64" by (simp add: blk_pos_def sz_mul_def)
  have p: "(stage s - 1) * ?n < 2 ^ 62"
    using mult_strict_mono' [of "stage s - 1" "2 ^ 46" ?n "2 ^ 16"] assms(1) n by (auto split: if_splits)
  then show 2: "0 < stage s \<Longrightarrow> blk_pos s = (stage s - 1) * ?n" using assms(1) by (intro blk_pos_eq) auto
  have "blk_pos s = 2 ^ 64 - ?n" if "stage s = 0"
  proof -
    have "(2 ^ 64 - 1) * ?n = (?n - 1) * 2 ^ 64 + (2 ^ 64 - ?n)" using assms(2) n by (simp add: diff_mult_distrib)
    then have "(2 ^ 64 - 1) * ?n mod 2 ^ 64 = (2 ^ 64 - ?n) mod 2 ^ 64" by (simp only: mod_mult_self3)
    then show ?thesis using that assms(2) n by (simp add: blk_pos_def sz_mul_def sz_sub_def)
  qed
  then show "2 ^ 63 \<le> blk_pos s \<longleftrightarrow> stage s = 0" using 2 p n by (cases "stage s = 0") auto
qed

text \<open>
  Receiving while the session waits for a block. It throws exactly on a block number 0 with a payload;
  otherwise the file is what the store allows, and the stream is good unless receiving fails.
\<close>

definition bad_block :: "session \<Rightarrow> env \<Rightarrow> bool" where
  "bad_block s e \<longleftrightarrow> (\<exists>bs. block_of (cl_addr s) e = Some (0, bs) \<and> bs \<noteq> []) \<and> stage s < 2 ^ 16"

lemma rx_stage_zero:
  assumes "stage s < 2 ^ 46"
  shows "rx_stage_ok s k \<and> stage (rx_set_stage s k) = 0 \<longleftrightarrow> k = 0 \<and> stage s < 2 ^ 16"
proof -
  have sz: "ssize_of (sz_add (stage s) 1) = int (stage s) + 1" "ssize_of (stage s) = int (stage s)"
    using assms by (simp_all add: sz_simps)
  have un: "unat (blk_num_local s) = stage s mod 2 ^ 16" by (simp add: blk_num_local_eq unat_of_nat)
  have r: "rx_stage s k = int (stage s) - int (stage s mod 2 ^ 16) + int (unat k)" by (simp add: rx_stage_def sz(2) un)
  show ?thesis
  proof
    assume a: "rx_stage_ok s k \<and> stage (rx_set_stage s k) = 0"
    note q = rx_set_stage_eq [of s k]
    have k: "k = 0" using q(2) a assms by simp
    moreover have "stage s < 2 ^ 16"
    proof (cases "blk_num_local s = k")
      case True
      then have "stage s = 0" using a by (simp add: rx_set_stage_def)
      then show ?thesis by simp
    next
      case False
      then have "size_of (rx_stage s k) = 0" using a by (simp add: rx_set_stage_def)
      moreover have "0 \<le> rx_stage s k" "rx_stage s k < 2 ^ 64" using r k assms by auto
      ultimately have "rx_stage s k = 0" by (simp add: size_of_exact)
      then have "stage s = stage s mod 2 ^ 16" using r k by simp
      then show ?thesis by (metis mod_less_divisor zero_less_numeral zero_less_power)
    qed
    ultimately show "k = 0 \<and> stage s < 2 ^ 16" by simp
  next
    assume a: "k = 0 \<and> stage s < 2 ^ 16"
    then have "rx_stage s k = 0" using r by simp
    then show "rx_stage_ok s k \<and> stage (rx_set_stage s k) = 0"
      using a sz un by (auto simp: rx_stage_ok_def rx_set_stage_def size_of_def)
  qed
qed

lemma receive_data_upload:
  assumes "file_man s = Some d" "dm_writable d" "Suc (stage s) < 2 ^ 46" "0 < unat (block_size s)"
  defines "pl b n \<equiv> take (n - 4) (drop 4 b)"
  shows "k = 0 \<and> stage s < 2 ^ 16 \<and> pl b n \<noteq> [] \<and> receive_data e s b n k = Inl Ios_failure \<or>
    \<not> (k = 0 \<and> stage s < 2 ^ 16 \<and> pl b n \<noteq> []) \<and> (\<exists>res s' d'. receive_data e s b n k = Inr (res, s') \<and>
      file_man s' = Some d' \<and> filename d' = filename d \<and> os_opened (file_out d') \<and> stage s' \<le> stage s + 1 \<and>
      (dm_stored d' = dm_stored d \<or>
       (\<exists>j > 0. k = of_nat j \<and> dm_stored d' = overlay (dm_stored d) ((j - 1) * unat (block_size s)) (pl b n))) \<and>
      res \<noteq> tr_nop \<and> (res = tr_ok \<longrightarrow> dm_writable d'))"
proof -
  let ?s1 = "rx_set_stage s k" and ?pl = "pl b n"
  have op: "os_opened (file_out d)" using assms(2) by (simp add: dm_writable_def)
  have z: "rx_stage_ok s k \<and> stage ?s1 = 0 \<longleftrightarrow> k = 0 \<and> stage s < 2 ^ 16" using rx_stage_zero [of s k] assms(3) by simp
  consider (no) "\<not> rx_stage_ok s k" | (empty) "rx_stage_ok s k" "?pl = []"
    | (zero) "rx_stage_ok s k" "?pl \<noteq> []" "stage ?s1 = 0" | (store) "rx_stage_ok s k" "?pl \<noteq> []" "0 < stage ?s1" by auto
  then show ?thesis
  proof cases
    case no
    then show ?thesis using z assms(1,2) op by (auto simp: receive_data_def)
  next
    case empty
    have q: "stage ?s1 \<le> stage s + 1" "file_man ?s1 = Some d"
      using rx_set_stage_eq(1) [OF empty(1)] assms(1,3) by (simp_all add: rx_set_stage_def)
    then have "receive_data e s b n k = Inr (tr_ok, ?s1\<lparr>file_man := Some d\<rparr>)"
      using empty(1) empty(2) [unfolded pl_def] assms(2) op
      by (simp add: receive_data_def Let_def dm_write_def dm_writable_def dm_callback_def)
    then show ?thesis using q(1) empty(2) assms(2) op by simp
  next
    case zero
    have q: "stage ?s1 < 2 ^ 46" "0 < unat (block_size ?s1)" "file_man ?s1 = Some d"
      using zero(3) assms(1,4) by (simp_all add: rx_set_stage_def block_size_def)
    note p = blk_pos_range [OF q(1,2)]
    have "receive_data e s b n k = Inl Ios_failure"
      using zero(1,3) p(2) q(3) dm_write_writable [OF assms(2) zero(2) p(1)] unfolding pl_def
      by (simp add: receive_data_def Let_def)
    then show ?thesis using z zero by blast
  next
    case store
    have q: "stage ?s1 \<le> stage s + 1" "of_nat (stage ?s1) = k" "file_man ?s1 = Some d" "block_size ?s1 = block_size s"
      using rx_set_stage_eq(1,2) [OF store(1)] assms(1,3) by (simp_all add: rx_set_stage_def block_size_def)
    then have q1: "stage ?s1 < 2 ^ 46" "0 < unat (block_size ?s1)" using assms(3,4) by simp_all
    note p = blk_pos_range [OF q1]
    show ?thesis
      using z store(1,3) p(2) p(3) [OF store(3)] q dm_write_writable [OF assms(2) store(2) p(1), of "e_dev e"] assms(2) unfolding pl_def
      by (cases "e_dev e")
        (auto simp: receive_data_def Let_def dm_stored_def dm_writable_def dm_callback_def [of _ None])
  qed
qed

lemma receive_upload:
  assumes "sbuf_ok b" "stat s = data_rx" "file_man s = Some d" "dm_writable d" "0 < stage s" "Suc (stage s) < 2 ^ 46"
    "0 < unat (block_size s)"
  shows "bad_block s e \<and> receive_no_wait e s b = Inl Ios_failure \<or>
    \<not> bad_block s e \<and> (\<exists>res s' b' d'. receive_no_wait e s b = Inr (res, s', b') \<and> file_man s' = Some d' \<and>
      filename d' = filename d \<and> os_opened (file_out d') \<and> stage s' \<le> stage s + 1 \<and>
      store_step (cl_addr s) (unat (block_size s)) e (dm_stored d) (dm_stored d') \<and>
      (res = tr_nop \<longrightarrow> s' = s) \<and> (res \<noteq> tr_fail \<longrightarrow> dm_writable d'))"
    (is "?throws \<or> \<not> ?bad \<and> ?ok")
proof (cases "block_of (cl_addr s) e")
  case None
  have op: "os_opened (file_out d)" using assms(4) by (simp add: dm_writable_def)
  have "\<not> ?bad" using None by (simp add: bad_block_def)
  moreover have "receive_no_wait e s b = Inr (case e_rx e of Rx_errno n \<Rightarrow> (if n = EAGAIN then tr_nop else tr_fail, s, b)
      | Rx_pkt pkt fr \<Rightarrow> (tr_nop, s, rx_buf b pkt))"
    using None assms(2) receive_pkt_eq [OF assms(1), of e _ _ s] receive_errno [of e _ s b]
    by (cases "e_rx e") (auto simp: block_of_def split: if_splits)
  ultimately show ?thesis using assms(3,4) op by (cases "e_rx e") (auto intro: store_skip)
next
  case (Some kb)
  obtain k pl where kb: "kb = (k, pl)" by fastforce
  obtain pkt fr where e: "e_rx e = Rx_pkt pkt fr" "rx_client fr = a_bytes (cl_addr s)" "pkt_field pkt 0 = 3"
    "k = pkt_field pkt 2" "pl = drop 4 (rx_cut pkt)"
    using Some kb by (auto simp: block_of_def split: rx_result.splits if_splits)
  have rc: "receive_no_wait e s b =
      (case receive_data e s (sb_buf (rx_buf b pkt)) (length (rx_cut pkt)) k of
         Inl x \<Rightarrow> Inl x | Inr (r, s') \<Rightarrow> Inr (r, s', rx_buf b pkt))"
    using receive_pkt_eq [OF assms(1) e(1)] e(2-4) assms(2) by simp
  have pl: "take (length (rx_cut pkt) - 4) (drop 4 (sb_buf (rx_buf b pkt))) = pl"
    using take_rx_buf [OF assms(1) order_refl, of pkt 4] by (simp add: e(5))
  have bad: "?bad \<longleftrightarrow> k = 0 \<and> stage s < 2 ^ 16 \<and> pl \<noteq> []" using Some kb by (auto simp: bad_block_def)
  note out = receive_data_upload [OF assms(3,4,6,7), of k "length (rx_cut pkt)" "sb_buf (rx_buf b pkt)" e, unfolded pl]
  show ?thesis
  proof (cases ?bad)
    case True
    then show ?thesis using out unfolding bad rc by auto
  next
    case False
    then obtain res s' d' where o: "receive_data e s (sb_buf (rx_buf b pkt)) (length (rx_cut pkt)) k = Inr (res, s')"
      "file_man s' = Some d'" "filename d' = filename d" "os_opened (file_out d')" "stage s' \<le> stage s + 1"
      "dm_stored d' = dm_stored d \<or> (\<exists>j > 0. k = of_nat j \<and> dm_stored d' = overlay (dm_stored d) ((j - 1) * unat (block_size s)) pl)"
      "res \<noteq> tr_nop" "res = tr_ok \<longrightarrow> dm_writable d'"
      using out unfolding bad by blast
    have "store_step (cl_addr s) (unat (block_size s)) e (dm_stored d) (dm_stored d')"
      using o(6) Some unfolding kb by (metis store_skip store_block)
    then show ?thesis using False o by (cases res) (simp_all add: rc)
  qed
qed

text \<open>The other states do not touch the file.\<close>

lemma quiet_states:
  assumes "run_inv r" "o_request_type (opts (sess r)) = srv_write" "Suc (stage (sess r)) < 2 ^ 46" "run_step e r = Inr r'"
    "stat (sess r) \<in> {ack_options, ack_tx, retransmit, error_and_stop, finish}"
  shows "file_man (sess r') = file_man (sess r)" "world r' = world r" "stage (sess r') \<le> stage (sess r) + 2"
    "stat (sess r') = data_rx \<Longrightarrow> 0 < stage (sess r')"
    "stat (sess r) \<in> {error_and_stop, finish} \<Longrightarrow> stat (sess r') = finish"
proof -
  let ?Q = "file_man (sess r') = file_man (sess r) \<and> world r' = world r \<and> stage (sess r') \<le> stage (sess r) + 2 \<and>
    (stat (sess r') = data_rx \<longrightarrow> 0 < stage (sess r')) \<and> (stat (sess r) \<in> {error_and_stop, finish} \<longrightarrow> stat (sess r') = finish)"
  note i = run_invD [OF assms(1)]
  consider (o) "stat (sess r) = ack_options" | (a) "stat (sess r) = ack_tx" | (r) "stat (sess r) = retransmit"
    | (e) "stat (sess r) = error_and_stop" | (f) "stat (sess r) = finish" using assms(5) by blast
  then have ?Q
  proof cases
    case o
    then show ?thesis
      using step_options [OF assms(1) o, of e] assms(2,4) by (auto simp: next_state_def first_stage_def split: if_splits)
  next
    case a
    have "stage (sess r) < 2 ^ 62" using assms(3) by simp
    then show ?thesis using step_send_ack [OF i(1) a, of e] assms(4) a by (auto split: if_splits)
  next
    case r
    then show ?thesis
      using assms(2,4) by (auto simp: run_step_def step_retransmit_def Let_def goto_state_stat split: if_splits)
  next
    case e
    then show ?thesis
      using assms(4) by (auto simp: run_step_def step_error_and_stop_def construct_error_def Let_def goto_state_stat
          send_buf_def split: sum.splits if_splits)
  next
    case f
    then show ?thesis using assms(4) by (simp add: run_step_def)
  qed
  then show "file_man (sess r') = file_man (sess r)" "world r' = world r" "stage (sess r') \<le> stage (sess r) + 2"
    "stat (sess r') = data_rx \<Longrightarrow> 0 < stage (sess r')"
    "stat (sess r) \<in> {error_and_stop, finish} \<Longrightarrow> stat (sess r') = finish" by auto
qed

lemma data_rx_upload:
  assumes "storing p fs r" "stat (sess r) = data_rx" "Suc (stage (sess r)) < 2 ^ 46" "0 < unat (block_size (sess r))"
    "run_step e r = Inr r'"
  shows "\<exists>d'. file_man (sess r') = Some d' \<and> sink p fs d' (stat (sess r') \<notin> {finish, error_and_stop}) r' \<and>
    store_step (cl_addr (sess r)) (unat (block_size (sess r))) e (content_of r) (dm_stored d') \<and>
    stage (sess r') \<le> stage (sess r) + 2 \<and> (stat (sess r') = data_rx \<longrightarrow> 0 < stage (sess r'))"
proof -
  obtain d where d: "file_man (sess r) = Some d" "dm_writable d" "filename d = p" "0 < stage (sess r)" "run_inv r"
    "world r = fs_set fs p []" "fs_stat fs p = Inr None"
    using assms(1,2) by (auto simp: storing_def sink_def dm_writable_def split: option.splits)
  obtain res s b where c: "receive_no_wait e (sess r) (local_buf r) = Inr (res, s, b)"
    using assms(2,5) by (auto simp: run_step_def step_data_rx_def split: sum.splits)
  obtain d' where d': "file_man s = Some d'" "filename d' = p" "os_opened (file_out d')" "stage s \<le> stage (sess r) + 1"
      "store_step (cl_addr (sess r)) (unat (block_size (sess r))) e (dm_stored d) (dm_stored d')"
      "res = tr_nop \<longrightarrow> s = sess r" "res \<noteq> tr_fail \<longrightarrow> dm_writable d'"
    using receive_upload [OF run_invD(1) [OF d(5)] assms(2) d(1,2,4) assms(3,4), of e] c d(3) by auto
  have st: "stat s = data_rx" using receive_frame [OF run_invD(1) [OF d(5)] c] assms(2) by (simp add: same_session_def)
  let ?x = "r\<lparr>sess := s, local_buf := b\<rparr>"
  let ?y = "?x\<lparr>last_blk_processed := (data_size b \<noteq> full_data_size s)\<rparr>"
  consider (nop) "res = tr_nop" "r' = ?x \<or> r' = goto_state retransmit ?x"
    | (ack) "res = tr_ok" "r' = goto_state ack_tx ?y"
    | (more) "res = tr_ok" "stage s mod windowsize s \<noteq> 0" "r' = timeout_reset e (inc_stage ?y)"
    | (fail) "res = tr_fail" "r' = goto_state error_and_stop ?x"
    using assms(2,5) c
    by (cases res) (auto simp: run_step_def step_data_rx_def poll_timeout_def Let_def is_window_close_def split: sum.splits if_splits)
  then have "file_man (sess r') = Some d' \<and> world r' = world r \<and> stage (sess r') \<le> stage (sess r) + 2 \<and>
      (stat (sess r') = data_rx \<longrightarrow> 0 < stage (sess r')) \<and> (stat (sess r') \<notin> {finish, error_and_stop} \<longrightarrow> dm_writable d')"
  proof cases
    case more
    have "sz_add (stage s) 1 = stage s + 1" using d'(4) assms(3) by (simp add: sz_simps)
    then show ?thesis using more d' by simp
  qed (use d'(1,4,6,7) d(4) st in \<open>auto simp: goto_state_stat\<close>)
  then show ?thesis using d' d(1,6,7) by (simp add: sink_def content_of_def)
qed

lemma storing_step:
  assumes "storing p fs r" "Suc (stage (sess r)) < 2 ^ 46" "0 < unat (block_size (sess r))" "run_step e r = Inr r'"
  shows "storing p fs r'" "stage (sess r') \<le> stage (sess r) + 2"
    "store_step (cl_addr (sess r)) (unat (block_size (sess r))) e (content_of r) (content_of r')"
proof -
  have i: "run_inv r" "o_request_type (opts (sess r)) = srv_write" "stat (sess r) \<notin> {need_init, data_tx, ack_rx}"
    using assms(1) by (simp_all add: storing_def)
  have i': "run_inv r'" "o_request_type (opts (sess r')) = srv_write" "stat (sess r') \<notin> {need_init, data_tx, ack_rx}"
    using run_step_ok [OF i(1) assms(4)] i(2) write_states [OF i(2,3,1) assms(4)] by (auto simp: step_rel_def)
  have "storing p fs r' \<and> stage (sess r') \<le> stage (sess r) + 2 \<and>
      store_step (cl_addr (sess r)) (unat (block_size (sess r))) e (content_of r) (content_of r')"
  proof (cases "stat (sess r) = data_rx")
    case True
    then show ?thesis
      using data_rx_upload [OF assms(1) True assms(2,3,4)] i' by (auto simp: storing_def content_of_def)
  next
    case False
    then have "stat (sess r) \<in> {ack_options, ack_tx, retransmit, error_and_stop, finish}"
      using i(3) by (cases "stat (sess r)") auto
    note q = quiet_states [OF i(1,2) assms(2,4) this]
    have "content_of r' = content_of r" using q(1) by (simp add: content_of_def)
    then show ?thesis
      using q i' assms(1) by (auto simp: storing_def sink_def store_skip split: option.splits)
  qed
  then show "storing p fs r'" "stage (sess r') \<le> stage (sess r) + 2"
    "store_step (cl_addr (sess r)) (unat (block_size (sess r))) e (content_of r) (content_of r')" by auto
qed

section \<open>The refinement\<close>

definition loop_step :: "env \<Rightarrow> run_state \<Rightarrow> run_state \<Rightarrow> bool" where
  "loop_step e r r' \<longleftrightarrow> run_step e r = Inr r'"

definition store_inv :: "addr \<Rightarrow> nat \<Rightarrow> path \<Rightarrow> filesys \<Rightarrow> nat \<Rightarrow> run_state \<Rightarrow> bool" where
  "store_inv ad bs p fs n r \<longleftrightarrow> storing p fs r \<and> cl_addr (sess r) = ad \<and> unat (block_size (sess r)) = bs \<and> 0 < bs \<and>
     stage (sess r) + 2 * n < 2 ^ 46"

interpretation st: simulation loop_step "store_step ad bs" "store_inv ad bs p fs" content_of for ad bs p fs
proof
  fix n r e r'
  assume a: "store_inv ad bs p fs (Suc n) r" "loop_step e r r'"
  then have s: "storing p fs r" "Suc (stage (sess r)) < 2 ^ 46" "0 < unat (block_size (sess r))" "run_step e r = Inr r'"
    by (auto simp: store_inv_def loop_step_def)
  have rel: "cl_addr (sess r') = cl_addr (sess r)" "opts (sess r') = opts (sess r)"
    using run_step_ok [OF _ s(4)] s(1) by (auto simp: storing_def step_rel_def)
  show "store_inv ad bs p fs n r'"
    using storing_step(1,2) [OF s] a(1) rel(1) block_size_opts [OF rel(2)] by (simp add: store_inv_def)
  show "store_step ad bs e (content_of r) (content_of r')"
    using storing_step(3) [OF s] a(1) by (simp add: store_inv_def)
qed

lemma run_loop_steps: "run_loop es r = Inr r' \<Longrightarrow> steps loop_step es r r'"
proof (induction es arbitrary: r)
  case (Cons e es)
  show ?case
  proof (cases "is_finished (sess r)")
    case True
    then have "run_loop es r = Inr r'" "run_step e r = Inr r"
      using Cons.prems by (cases es, auto simp: run_step_def is_finished_def)
    then show ?thesis using Cons.IH by (auto simp: loop_step_def intro: steps_Cons)
  next
    case False
    then obtain r1 where "run_step e r = Inr r1" "run_loop es r1 = Inr r'"
      using Cons.prems by (auto split: sum.splits)
    then show ?thesis using Cons.IH by (auto simp: loop_step_def intro: steps_Cons)
  qed
qed simp

text \<open>The state after the first iteration, when the socket is open.\<close>

lemma upload_begins:
  assumes "what_ok fs" "prepare (session_new st) ad pkt n = Inr (True, s)" "o_request_type (opts s) = srv_write"
    "run_step e (run_start fs s) = Inr r" "file_man (sess r) \<noteq> None" "p = path_append (get_root_dir st) (o_filename (opts s))"
  shows "storing p fs r" "content_of r = []" "stage (sess r) = 0" "cl_addr (sess r) = ad" "block_size (sess r) = block_size s"
proof -
  let ?r0 = "run_start fs s"
  note i = prepared_run_inv [OF assms(1,2)] and f = prepare_facts [OF assms(2)]
  have q: "stat (sess ?r0) = need_init" "world ?r0 = fs" "file_man (sess ?r0) = None" "opts (sess ?r0) = opts s"
    "sess_settings (sess ?r0) = st" "cl_addr (sess ?r0) = ad" "stage (sess ?r0) = 0"
    using f by (simp_all add: run_start_def)
  have rel: "opts (sess r) = opts s" "cl_addr (sess r) = ad" "run_inv r"
    using run_step_ok [OF i assms(4)] q by (auto simp: step_rel_def)
  obtain ret s' fs' where it: "sess_init e fs (sess ?r0) = Inr (ret, s', fs')"
    using assms(4) q(1,2) by (auto simp: run_step_def step_need_init_def split: sum.splits)
  have r: "file_man (sess r) = file_man s'" "world r = fs'" "stage (sess r) = stage s'"
    "stat (sess r) = (if ret then (if was_error s' then error_and_stop else ack_options) else finish)"
    using assms(4) q(1,2) it sess_init_frame(1) [OF it assms(1)]
    by (auto simp: run_step_def step_need_init_def Let_def goto_state_stat same_session_def)
  have "\<not> (e_socket e < 0 \<or> e_bind e = - 1)"
    using it r(1) assms(5) q(3) by (auto simp: sess_init_def Let_def)
  then obtain rt err d where di: "dm_init fs st dmf_new (opts s) = Inr (rt, err, d, fs')" and s': "file_man s' = Some d" "stage s' = 0"
    "ret" "\<not> rt \<Longrightarrow> was_error s'"
    using it q(4,5,7) by (auto simp: sess_init_def Let_def set_error_was_error split: sum.splits if_splits)
  note w = dm_init_write_outcome [OF assms(3) di]
  have st: "dm_stored d = []"
    using di assms(3)
    by (auto simp: dm_init_def init_write_def Let_def dm_stored_def ofs_opened_def ofs_closed_def dmf_new_def
        data_mgr.defs split: sum.splits option.splits bool.splits if_splits)
  have "sink p fs d (stat (sess r) \<notin> {finish, error_and_stop}) r"
    using w(1,2,4,5) s'(3,4) r(2,4) assms(6) by (cases rt) (auto simp: sink_def active_def dm_writable_def)
  then show "storing p fs r"
    using rel assms(3) r(1,4) s'(1,3) by (simp add: storing_def)
  show "content_of r = []" "stage (sess r) = 0" using r(1,3) s'(1,2) st by (simp_all add: content_of_def)
  show "cl_addr (sess r) = ad" "block_size (sess r) = block_size s" using rel(1,2) by (simp_all add: block_size_def)
qed

text \<open>The end: what was stored is in the file system.\<close>

lemma storing_end:
  assumes "storing p fs r" "run_end dev r = Inr (r', calls)"
  shows "world r' = fs \<or> fs_stat fs p = Inr None \<and> world r' = fs_set fs p (content_of r)"
proof -
  obtain d where d: "file_man (sess r) = Some d" "filename d = p"
    "if os_opened (file_out d) then fs_stat fs p = Inr None \<and> world r = fs_set fs p [] else world r = fs"
    using assms(1) by (auto simp: storing_def sink_def split: option.splits)
  obtain d' fs' calls' where c: "dm_close (world r) d dev = Inr (d', fs', calls')" "world r' = fs'"
    using assms(2) d(1) by (auto simp: run_end_def split: sum.splits)
  then have "fs' = (if os_opened (file_out d) then fs_set (world r) p (dm_stored d) else world r)"
    using d(2) by (auto simp: dm_close_def Let_def dm_stored_def split: sum.splits if_splits)
  then show ?thesis using c(2) d by (auto simp: content_of_def fs_set_twice split: if_splits)
qed

text \<open>Every state of an upload that has opened its socket, with the store beside it.\<close>

lemma upload_reaches:
  assumes "what_ok fs" "prepare (session_new st) ad pkt n = Inr (True, s)" "o_request_type (opts s) = srv_write"
    "p = path_append (get_root_dir st) (o_filename (opts s))" "bs = unat (block_size s)" "0 < bs" "length es < 2 ^ 44"
    "run_loop es (run_start fs s) = Inr r" "file_man (sess r) \<noteq> None"
  shows "store_inv ad bs p fs 1 r" "steps (store_step ad bs) es [] (content_of r)"
proof -
  have f: "stat s = need_init" "file_man s = None" using prepare_facts [OF assms(2)] by simp_all
  obtain e es' r1 where es: "es = e # es'" "run_step e (run_start fs s) = Inr r1" "run_loop es' r1 = Inr r"
    using assms(8,9) f by (cases es) (auto simp: run_start_def is_finished_def split: sum.splits)
  have "file_man (sess r1) \<noteq> None"
  proof
    assume n: "file_man (sess r1) = None"
    have "stat (sess r1) = finish"
      using write_first_step(2) [OF _ es(2) _ prepared_run_inv [OF assms(1,2)]] n f(1) by (auto simp: run_start_def)
    then have "r = r1" using es(3) by (cases es') (auto simp: is_finished_def)
    then show False using assms(9) n by simp
  qed
  note b = upload_begins [OF assms(1-3) es(2) this assms(4)]
  have "store_inv ad bs p fs (length es' + 1) r1" using b assms(5-7) es(1) by (simp add: store_inv_def)
  note sim = st.refines [OF run_loop_steps [OF es(3)] this]
  show "store_inv ad bs p fs 1 r" using sim by simp
  show "steps (store_step ad bs) es [] (content_of r)"
    unfolding es(1) using sim b(2) by (auto intro: steps_Cons store_skip)
qed

text \<open>
  C6. An upload refines a block store, whatever arrives. Take any sequence of inputs of its iterations
  for which \<open>run\<close> returns. Then the file system is unchanged, or nothing existed at the path of the
  request and the file system is changed exactly by a file there; and its content is one the block
  store can have after the same inputs: starting with the empty file, in each iteration it stays as it
  is, or the payload of a DATA packet that arrived from the client in that iteration is written at the
  place of a block with the number of the packet. So nobody but the client writes to the file, and
  nothing is written at a wrong place.
\<close>

theorem upload_refines_store:
  assumes "what_ok fs" "prepare (session_new st) ad pkt n = Inr (True, s)" "o_request_type (opts s) = srv_write"
    "p = path_append (get_root_dir st) (o_filename (opts s))" "bs = unat (block_size s)" "0 < bs" "length es < 2 ^ 44"
    "run es dev fs s = Inr (Some (r, calls))"
  shows "\<exists>c. steps (store_step ad bs) es [] c \<and>
    (world r = fs \<or> fs_stat fs p = Inr None \<and> world r = fs_set fs p c)"
proof -
  obtain r2 where r2: "run_loop es (run_start fs s) = Inr r2" "run_end dev r2 = Inr (r, calls)"
    using assms(8) by (auto simp: run_def split: sum.splits if_splits)
  then have "file_man (sess r2) \<noteq> None" by (auto simp: run_end_def split: option.splits)
  note u = upload_reaches [OF assms(1-7) r2(1) this]
  then show ?thesis using storing_end [OF _ r2(2), of p fs] by (auto simp: store_inv_def)
qed

theorem upload_refines_store_witness:
  "\<exists>r c. run demo_upload_inputs True demo_read_fs (demo_prepared demo_write_request) =
       Inr (Some (r, [Close_fd 5, Permissions ''/r/new.bin'' 436])) \<and>
     steps (store_step demo_client 2) demo_upload_inputs [] c \<and>
     (world r = demo_read_fs \<or> fs_stat demo_read_fs ''/r/new.bin'' = Inr None \<and> world r = fs_set demo_read_fs ''/r/new.bin'' c)"
proof -
  obtain r where r: "run demo_upload_inputs True demo_read_fs (demo_prepared demo_write_request) =
       Inr (Some (r, [Close_fd 5, Permissions ''/r/new.bin'' 436]))"
    using upload_ends [OF what_ok_demo demo_write_prepared demo_upload(1-14)] unfolding demo_upload(16) demo_new_file(5) by blast
  have "length demo_upload_inputs < 2 ^ 44" by simp
  from upload_refines_store [OF what_ok_demo demo_write_prepared demo_upload(1,2,7,8) this r] r show ?thesis by blast
qed


text \<open>The example upload before its first block, and a packet that ends the server.\<close>

lemma demo_upload_waits:
  "\<exists>r. run_loop [quiet 0, quiet 1] (run_start demo_read_fs (demo_prepared demo_write_request)) = Inr r \<and>
     stat (sess r) = data_rx \<and> stage (sess r) = 1 \<and> file_man (sess r) \<noteq> None"
proof -
  let ?s = "demo_prepared demo_write_request"
  obtain d where d: "dm_init demo_read_fs demo_sett dmf_new (opts ?s) = Inr (True, None, d, fs_set demo_read_fs ''/r/new.bin'' [])"
    "dm_writable d" "filename d = ''/r/new.bin''" "dm_settings d = demo_sett"
    using dm_init_created [OF demo_upload(1-4)] by blast
  obtain r0 where st0: "run_step (quiet 0) (run_start demo_read_fs ?s) = Inr r0" and i0: "run_inv r0"
    and o0: "stat (sess r0) = ack_options" "\<not> was_error (sess r0)" "opts (sess r0) = opts ?s" "\<not> last_blk_processed r0"
    and b0: "block_size (sess r0) = block_size ?s" "windowsize (sess r0) = windowsize ?s" "file_man (sess r0) = Some d"
    and nf: "\<not> is_finished (sess (run_start demo_read_fs ?s))"
    by (rule session_begins [OF what_ok_demo demo_write_prepared demo_upload(11,12) d(1)])
  have u0: "up r0" unfolding up_def b0(1,2) o0(3) using i0 o0(2) demo_upload(6,8-10) by (simp flip: demo_upload(7))
  have s0: "has_sink demo_sett ''/r/new.bin'' (dm_stored d) r0" using d b0(3) by (simp add: has_sink_def)
  obtain r1 where r1: "run_loop [quiet 1] r0 = Inr r1" "has_sink demo_sett ''/r/new.bin'' (dm_stored d) r1"
    "stat (sess r1) = data_rx" "stage (sess r1) = 1"
    using loop_greeting [OF u0 o0(1) _ o0(4) s0, of "[quiet 1]"] o0(3) demo_upload(1,15) by auto
  have "run_loop [quiet 0, quiet 1] (run_start demo_read_fs ?s) = Inr r1"
    unfolding run_loop_1 [OF nf st0] by (rule r1(1))
  then show ?thesis using r1(2-4) by (auto simp: has_sink_def split: option.splits)
qed


end
