(* ===== verification/Download.thy ===== *)
theory Download
  imports Traffic
begin

text \<open>
  Whole downloads with a client that follows the protocol: it is sent exactly the blocks of the file,
  in order, and the session ends without error.
\<close>

section \<open>The client\<close>

text \<open>A packet is sent and then acknowledged with number \<open>k\<close> in time.\<close>

definition answered :: "addr \<Rightarrow> int \<Rightarrow> nat \<Rightarrow> env list \<Rightarrow> bool" where
  "answered cl tmo k es \<longleftrightarrow>
     length es \<ge> 2 \<and> waits cl tmo (e_time (hd es)) (butlast (tl es)) \<and> gives cl (ack_pkt (of_nat k)) (last es)"

text \<open>The blocks \<open>k\<close> to \<open>m\<close> are acknowledged one after the other.\<close>

inductive served :: "addr \<Rightarrow> int \<Rightarrow> nat \<Rightarrow> nat \<Rightarrow> env list \<Rightarrow> bool" where
  served_last: "answered cl tmo k es \<Longrightarrow> served cl tmo k k es"
| served_next: "answered cl tmo k es \<Longrightarrow> k < m \<Longrightarrow> served cl tmo (Suc k) m es' \<Longrightarrow> served cl tmo k m (es @ es')"

lemma answered_split:
  assumes "answered cl tmo k es"
  obtains tx ws ack where "es = tx # ws @ [ack]" "waits cl tmo (e_time tx) ws" "gives cl (ack_pkt (of_nat k)) ack"
proof -
  obtain tx es' where es: "es = tx # es'" "es' \<noteq> []"
    using assms by (cases es) (auto simp: answered_def Suc_le_eq)
  then have "es = tx # butlast es' @ [last es']" by simp
  then show ?thesis by (rule that) (use assms es in \<open>simp_all add: answered_def\<close>)
qed

section \<open>Sending the blocks of a file\<close>

text \<open>A download of \<open>fl\<close> is under way: the session waits for its turn to send or for an answer.\<close>

definition down :: "byte list \<Rightarrow> run_state \<Rightarrow> bool" where
  "down fl r \<longleftrightarrow> run_inv r \<and> \<not> was_error (sess r) \<and> windowsize (sess r) = 1 \<and>
     0 < unat (block_size (sess r)) \<and> unat (block_size (sess r)) \<le> 65531 \<and>
     timeout (opts (sess r)) < 2 ^ 31 - 1 \<and> length fl < 2 ^ 61"

definition has_source :: "byte list \<Rightarrow> bool \<Rightarrow> run_state \<Rightarrow> bool" where
  "has_source fl rdy r \<longleftrightarrow> (case file_man (sess r) of None \<Rightarrow> False
     | Some d \<Rightarrow> dm_source d = fl \<and> (rdy \<longrightarrow> dm_ready d) \<and> request_type d = srv_read \<and> \<not> os_opened (file_out d))"

lemma was_error_file_man: "was_error (s\<lparr>file_man := f\<rparr>) = was_error s"
  by (simp add: was_error_def)

lemma blk_num_local_file_man: "blk_num_local (s\<lparr>file_man := f\<rparr>) = blk_num_local s"
  by (simp add: blk_num_local_def)

lemma dm_read_out: "dm_read d n p = Inr (ret, got, err, d') \<Longrightarrow> file_out d' = file_out d \<and> request_type d' = request_type d"
  by (auto simp: dm_read_def Let_def split: if_splits prod.splits)

text \<open>One DATA packet is built and handed to \<open>sendto\<close>.\<close>

lemma construct_block:
  assumes "sbuf_ok b" "file_man s = Some d" "dm_ready d" "0 < unat (block_size s)" "unat (block_size s) \<le> 65531"
    "length (dm_source d) < 2 ^ 61" "0 < stage s" "stage s \<le> last_block (unat (block_size s)) (dm_source d)"
  shows "\<exists>d' b'. construct_data s b = Inr (s\<lparr>file_man := Some d'\<rparr>, b') \<and> sbuf_ok b' \<and>
    content b' = data_pkt (of_nat (stage s)) (block (unat (block_size s)) (dm_source d) (stage s)) \<and>
    data_size b' = 4 + length (block (unat (block_size s)) (dm_source d) (stage s)) \<and>
    dm_source d' = dm_source d \<and>
    (stage s < last_block (unat (block_size s)) (dm_source d) \<or> unat (block_size s) dvd length (dm_source d) \<longrightarrow> dm_ready d') \<and>
    file_out d' = file_out d \<and> request_type d' = request_type d"
proof -
  let ?n = "unat (block_size s)" and ?fl = "dm_source d"
  let ?bk = "block ?n ?fl (stage s)"
  have p: "(stage s - 1) * ?n \<le> length ?fl" by (rule block_in_file [OF assms(7,8)])
  have "blk_pos s = (stage s - 1) * ?n"
    using assms(6-8) p last_block_bound [of ?n ?fl] by (intro blk_pos_eq) auto
  then obtain d' where rd: "dm_read d ?n (blk_pos s) = Inr (int (length ?bk), ?bk, None, d')"
    and d': "dm_source d' = ?fl" "stage s < last_block ?n ?fl \<or> ?n dvd length ?fl \<longrightarrow> dm_ready d'"
    using rq.rd_block [OF assms(3,7,8,4)] assms(6) by auto
  have len: "length ?bk \<le> ?n" by (simp add: length_block)
  show ?thesis
    using construct_data_eq [OF assms(1,2,5) rd] d' dm_read_out [OF rd] content_data_buf [OF assms(1), where s = s and got = ?bk]
      sbuf_ok_data_buf [OF assms(1), where s = s and got = ?bk and n = "4 + length ?bk"] len assms(5)
    by (auto simp: dm_callback_def Let_def blk_num_local_eq)
qed

lemma step_send_block:
  assumes "down fl r" "has_source fl True r" "stat (sess r) = data_tx" "k = stage (sess r)"
    "0 < k" "n = unat (block_size (sess r))" "k \<le> last_block n fl"
  shows "\<exists>r'. run_step e r = Inr r' \<and> down fl r' \<and> has_source fl (k < last_block n fl) r' \<and>
    stat (sess r') = ack_rx \<and> stage (sess r') = k \<and> (last_blk_processed r' \<longleftrightarrow> k = last_block n fl) \<and>
    sent r' = sent r @ [data_pkt (of_nat k) (block n fl k)] \<and> oper_time r' = e_time e \<and> world r' = world r \<and>
    sock (sess r') = sock (sess r)"
proof -
  obtain d where d: "file_man (sess r) = Some d" "dm_source d = fl" "dm_ready d" "request_type d = srv_read"
    "\<not> os_opened (file_out d)"
    using assms(2) by (auto simp: has_source_def split: option.splits)
  note dn = assms(1) [unfolded down_def]
  have b: "sbuf_ok (local_buf r)" using dn run_invD(1) by blast
  obtain d' b' where c: "construct_data (sess r) (local_buf r) = Inr ((sess r)\<lparr>file_man := Some d'\<rparr>, b')"
    "sbuf_ok b'" "content b' = data_pkt (of_nat k) (block n fl k)" "data_size b' = 4 + length (block n fl k)"
    "dm_source d' = fl" "k < last_block n fl \<longrightarrow> dm_ready d'" "file_out d' = file_out d" "request_type d' = request_type d"
    using construct_block [OF b d(1,3)] dn assms(4-7) d(2) by auto
  have full: "length (block n fl k) = n \<longleftrightarrow> k \<noteq> last_block n fl"
    using block_full [OF assms(5), of n fl] block_last_short [of n fl] dn assms(6,7) by fastforce
  have bs: "full_data_size ((sess r)\<lparr>file_man := Some d'\<rparr>) = 4 + n"
    using assms(6) by (simp add: full_data_size_def block_size_def)
  have w: "is_window_close ((sess r)\<lparr>file_man := Some d'\<rparr>) k"
    using dn by (simp add: is_window_close_def windowsize_def split: if_splits)
  have st: "run_step e r = Inr (goto_state ack_rx (timeout_reset e
      ((send_buf e (r\<lparr>sess := (sess r)\<lparr>file_man := Some d'\<rparr>, local_buf := b'\<rparr>))
         \<lparr>last_blk_processed := (k = last_block n fl)\<rparr>)))" (is "_ = Inr ?r'")
    using c(1,4) dn assms(3,4) bs w full
    by (simp add: run_step_def step_data_tx_def Let_def was_error_file_man)
  have inv: "run_inv ?r'" using run_step_ok [OF _ st] dn by blast
  have tx: "snd (transmit_no_wait s b' v) = [data_pkt (of_nat k) (block n fl k)]" for s v
    using c(3,4) by (simp add: transmit_no_wait_def)
  show ?thesis
    by (rule exI [of _ ?r'])
      (use st inv dn c(5-8) d(4,5) assms(3,4) tx in
        \<open>auto simp: down_def has_source_def goto_state_stat goto_state_def switch_to_def send_buf_def was_error_def
          windowsize_def block_size_def Let_def timeout_reset_def\<close>)
qed

text \<open>The expected acknowledgement ends the session after the last block, else the next block is due.\<close>

lemma receive_expected_ack:
  assumes "sbuf_ok b" "stat s = ack_rx" "stage s < 2 ^ 62" "gives (cl_addr s) (ack_pkt (of_nat (stage s))) e"
  shows "\<exists>b'. receive_no_wait e s b = Inr (tr_ok, s, b') \<and> sbuf_ok b'"
proof -
  let ?p = "ack_pkt (of_nat (stage s))"
  obtain fr where e: "e_rx e = Rx_pkt ?p fr" "rx_client fr = a_bytes (cl_addr s)"
    using assms(4) by (auto simp: gives_def split: rx_result.splits)
  show ?thesis
    using receive_pkt_eq [OF assms(1) e(1), of s] e(2) assms(2) rx_stage_same [OF assms(3)] sbuf_ok_rx_buf [OF assms(1)]
    by (simp add: pkt_field_ack receive_ack_def)
qed

lemma step_take_ack:
  assumes "sbuf_ok (local_buf r)" "stat (sess r) = ack_rx" "stage (sess r) < 2 ^ 62"
    "gives (cl_addr (sess r)) (ack_pkt (of_nat (stage (sess r)))) e"
  shows "\<exists>b. sbuf_ok b \<and> run_step e r =
    Inr (if last_blk_processed r then r\<lparr>local_buf := b, sess := (sess r)\<lparr>stat := finish\<rparr>\<rparr>
         else r\<lparr>local_buf := b, sess := (sess r)\<lparr>stat := data_tx, stage := stage (sess r) + 1\<rparr>, oper_time := e_time e\<rparr>)"
proof -
  obtain b' where b': "receive_no_wait e (sess r) (local_buf r) = Inr (tr_ok, sess r, b')" "sbuf_ok b'"
    using receive_expected_ack [OF assms] by blast
  have "sz_add (stage (sess r)) 1 = stage (sess r) + 1" using assms(3) by (simp add: sz_simps)
  then show ?thesis
    using b' assms(2)
    by (auto simp: run_step_def step_ack_rx_def Let_def goto_state_def switch_to_def timeout_reset_def
        inc_stage_def set_stage_def)
qed

lemma down_update:
  assumes "down fl r" "stat (sess r) \<in> {ack_rx, data_tx}" "sbuf_ok b"
  shows "down fl (r\<lparr>local_buf := b\<rparr>)" "down fl (r\<lparr>local_buf := b, sess := (sess r)\<lparr>stat := finish\<rparr>\<rparr>)"
    "down fl (r\<lparr>local_buf := b, sess := (sess r)\<lparr>stat := data_tx, stage := k\<rparr>, oper_time := t\<rparr>)"
  using assms by (auto simp: down_def run_inv_def under_way_def was_error_def windowsize_def block_size_def)

text \<open>From a packet just sent to the answer.\<close>

lemma loop_answer:
  assumes "down fl r" "stat (sess r) = ack_rx" "stage (sess r) = k" "k < 2 ^ 62" "cl = cl_addr (sess r)"
    "waits cl (timeout (opts (sess r))) (oper_time r) ws" "gives cl (ack_pkt (of_nat k)) ack"
  shows "\<exists>r'. run_loop (ws @ [ack]) r = Inr r' \<and> down fl r' \<and> sent r' = sent r \<and> world r' = world r \<and>
    sock (sess r') = sock (sess r) \<and> file_man (sess r') = file_man (sess r) \<and>
    (if last_blk_processed r then stat (sess r') = finish else stat (sess r') = data_tx \<and> stage (sess r') = k + 1)"
proof -
  have tmo: "timeout (opts (sess r)) < 2 ^ 31 - 1" and b0: "sbuf_ok (local_buf r)"
    using assms(1) run_invD(1) by (auto simp: down_def)
  obtain b where b: "sbuf_ok b" "run_loop ws r = Inr (r\<lparr>local_buf := b\<rparr>)"
    using loop_waits [OF b0 _ tmo] assms(2,5,6) by auto
  obtain b' where b': "sbuf_ok b'" "run_step ack (r\<lparr>local_buf := b\<rparr>) =
      Inr (if last_blk_processed r then r\<lparr>local_buf := b', sess := (sess r)\<lparr>stat := finish\<rparr>\<rparr>
           else r\<lparr>local_buf := b', sess := (sess r)\<lparr>stat := data_tx, stage := k + 1\<rparr>, oper_time := e_time ack\<rparr>)"
    (is "_ = Inr ?r'")
    using step_take_ack [of "r\<lparr>local_buf := b\<rparr>" ack] b(1) assms(2-5,7) by (cases "last_blk_processed r") auto
  have "\<not> is_finished (sess r)" using assms(2) by (simp add: is_finished_def)
  then have "run_loop (ws @ [ack]) r = Inr ?r'" using b(2) b'(2) by (simp add: run_loop_append)
  then show ?thesis using down_update [OF assms(1) _ b'(1)] assms(2) by (intro exI [of _ ?r']) auto
qed

lemma loop_block:
  assumes "down fl r" "has_source fl True r" "stat (sess r) = data_tx" "stage (sess r) = k"
    "0 < k" "n = unat (block_size (sess r))" "k \<le> last_block n fl" "cl = cl_addr (sess r)"
    "tmo = timeout (opts (sess r))" "answered cl tmo k es"
  shows "\<exists>r'. run_loop es r = Inr r' \<and> down fl r' \<and> world r' = world r \<and> sock (sess r') = sock (sess r) \<and>
    sent r' = sent r @ [data_pkt (of_nat k) (block n fl k)] \<and>
    has_source fl (k < last_block n fl) r' \<and>
    (if k = last_block n fl then stat (sess r') = finish else stat (sess r') = data_tx \<and> stage (sess r') = k + 1)"
proof -
  obtain tx ws ack where es: "es = tx # ws @ [ack]" "waits cl tmo (e_time tx) ws" "gives cl (ack_pkt (of_nat k)) ack"
    using assms(10) by (rule answered_split)
  obtain r1 where r1: "run_step tx r = Inr r1" "down fl r1" "has_source fl (k < last_block n fl) r1"
    "stat (sess r1) = ack_rx" "stage (sess r1) = k" "last_blk_processed r1 \<longleftrightarrow> k = last_block n fl"
    "sent r1 = sent r @ [data_pkt (of_nat k) (block n fl k)]" "oper_time r1 = e_time tx" "world r1 = world r"
    "sock (sess r1) = sock (sess r)"
    using step_send_block [OF assms(1-3) assms(4) [symmetric] assms(5-7)] by blast
  have "run_inv r" using assms(1) by (simp add: down_def)
  then have same: "cl = cl_addr (sess r1)" "tmo = timeout (opts (sess r1))"
    using run_step_ok [OF _ r1(1)] assms(8,9) by (auto simp: step_rel_def)
  have k: "k < 2 ^ 62"
    using assms(1,7) last_block_bound [of n fl] by (simp add: down_def)
  obtain r' where r': "run_loop (ws @ [ack]) r1 = Inr r'" "down fl r'" "sent r' = sent r1" "world r' = world r1"
    "sock (sess r') = sock (sess r1)" "file_man (sess r') = file_man (sess r1)"
    "if last_blk_processed r1 then stat (sess r') = finish else stat (sess r') = data_tx \<and> stage (sess r') = k + 1"
    using loop_answer [OF r1(2,4,5) k same(1) _ es(3)] es(2) same(2) r1(8) by auto
  have "run_loop es r = Inr r'"
    using run_loop_1 [OF _ r1(1)] r'(1) assms(3) es(1) by (simp add: is_finished_def)
  then show ?thesis using r' r1 by (intro exI [of _ r']) (auto simp: has_source_def)
qed

lemma loop_served:
  assumes "served cl tmo k m es" "down fl r" "has_source fl True r" "stat (sess r) = data_tx" "stage (sess r) = k"
    "0 < k" "n = unat (block_size (sess r))" "m = last_block n fl" "k \<le> m" "cl = cl_addr (sess r)"
    "tmo = timeout (opts (sess r))"
  shows "\<exists>r'. run_loop es r = Inr r' \<and> down fl r' \<and> world r' = world r \<and> sock (sess r') = sock (sess r) \<and>
    sent r' = sent r @ map (\<lambda>k. data_pkt (of_nat k) (block n fl k)) [k..<Suc m] \<and>
    stat (sess r') = finish \<and> has_source fl False r'"
  using assms
proof (induction arbitrary: r rule: served.induct)
  case (served_last cl tmo k es)
  note p = served_last.prems
  show ?case using loop_block [OF p(1-6) _ p(9,10) served_last.hyps] p(7) by auto
next
  case (served_next cl tmo k es m es')
  note p = served_next.prems and h = served_next.hyps
  obtain r1 where r1: "run_loop es r = Inr r1" "down fl r1" "world r1 = world r" "sock (sess r1) = sock (sess r)"
    "sent r1 = sent r @ [data_pkt (of_nat k) (block n fl k)]" "has_source fl True r1"
    "stat (sess r1) = data_tx" "stage (sess r1) = Suc k"
    using loop_block [OF p(1-6) _ p(9,10) h(1)] p(7) h(2) by auto
  have "run_inv r" using p(1) by (simp add: down_def)
  then have same: "opts (sess r1) = opts (sess r)" "cl_addr (sess r1) = cl_addr (sess r)"
    using reach_kept [OF run_loop_reach [OF r1(1)]] by auto
  then have "n = unat (block_size (sess r1))" using p(6) block_size_opts by metis
  then obtain r2 where r2: "run_loop es' r1 = Inr r2" "down fl r2" "world r2 = world r1" "sock (sess r2) = sock (sess r1)"
    "sent r2 = sent r1 @ map (\<lambda>k. data_pkt (of_nat k) (block n fl k)) [Suc k..<Suc m]"
    "stat (sess r2) = finish" "has_source fl False r2"
    using served_next.IH [OF r1(2,6-8) _ _ p(7) _] same p(9,10) h(2) by auto
  have "[k..<Suc m] = k # [Suc k..<Suc m]" using h(2) by (simp add: upt_conv_Cons)
  then show ?case using r1 r2 by (simp add: run_loop_append del: upt_Suc)
qed

text \<open>With options the client first acknowledges the option reply with number 0.\<close>

definition opened :: "options \<Rightarrow> addr \<Rightarrow> int \<Rightarrow> env list \<Rightarrow> bool" where
  "opened o' cl tmo es \<longleftrightarrow> (if was_set_any o' then answered cl tmo 0 es else length es = 1)"

lemma loop_opened:
  assumes "down fl r" "has_source fl True r" "stat (sess r) = ack_options" "o_request_type (opts (sess r)) = srv_read"
    "\<not> last_blk_processed r" "opened (opts (sess r)) (cl_addr (sess r)) (timeout (opts (sess r))) es"
  shows "\<exists>r'. run_loop es r = Inr r' \<and> down fl r' \<and> has_source fl True r' \<and> stat (sess r') = data_tx \<and>
    stage (sess r') = 1 \<and> sent r' = sent r @ opt_reply (opts (sess r)) \<and> world r' = world r \<and> sock (sess r') = sock (sess r)"
proof -
  let ?o = "opts (sess r)"
  have inv: "run_inv r" using assms(1) by (simp add: down_def)
  obtain e es' where es: "es = e # es'" using assms(6) by (cases es) (auto simp: opened_def answered_def split: if_splits)
  obtain b where b: "sbuf_ok b" "run_step e r =
    Inr (r\<lparr>local_buf := b, sess := (sess r)\<lparr>stat := next_state ?o, stage := first_stage ?o\<rparr>,
           oper_time := e_time e, sent := sent r @ opt_reply ?o\<rparr>)" (is "_ = Inr ?r1")
    using step_options [OF inv assms(3)] assms(4) by auto
  have r1: "run_loop es r = run_loop es' ?r1"
    using es run_loop_1 [OF _ b(2)] assms(3) by (simp add: is_finished_def)
  have dn: "down fl ?r1" using assms(1) run_step_ok [OF inv b(2)] by (auto simp: down_def was_error_def windowsize_def block_size_def)
  show ?thesis
  proof (cases "was_set_any ?o")
    case False
    then have "es' = []" using assms(6) es by (simp add: opened_def)
    then show ?thesis
      using False r1 dn assms(2,4) by (simp add: next_state_def first_stage_def has_source_def)
  next
    case True
    then have "answered (cl_addr (sess r)) (timeout ?o) 0 es" using assms(6) by (simp add: opened_def)
    then obtain ws ack where w: "es' = ws @ [ack]" "waits (cl_addr (sess r)) (timeout ?o) (e_time e) ws"
      "gives (cl_addr (sess r)) (ack_pkt (of_nat 0)) ack" using es by (auto elim: answered_split)
    have "stat (sess ?r1) = ack_rx" "stage (sess ?r1) = 0"
      using True assms(4) by (simp_all add: next_state_def first_stage_def)
    then obtain r' where "run_loop (ws @ [ack]) ?r1 = Inr r'" "down fl r'" "sent r' = sent ?r1" "world r' = world r"
      "sock (sess r') = sock (sess r)" "file_man (sess r') = file_man (sess r)"
      "if last_blk_processed r then stat (sess r') = finish else stat (sess r') = data_tx \<and> stage (sess r') = 0 + 1"
      using loop_answer [OF dn, of 0 "cl_addr (sess r)" ws ack] w(2,3) by auto
    then show ?thesis using r1 w(1) assms(2,5) by (auto simp: has_source_def)
  qed
qed

lemma dm_init_found:
  assumes "o_request_type opt = srv_read" "find_for_read fs st (o_filename opt) = Inr (Some p)"
    "fs_open_in fs p = Some fl" "fs_stat fs p = Inr (Some (Reg fl))"
  shows "\<exists>d. dm_init fs st dmf_new opt = Inr (True, None, d, fs) \<and> dm_ready d \<and> dm_source d = fl \<and>
    \<not> os_opened (file_out d) \<and> request_type d = srv_read"
  using assms
  by (simp add: dm_init_def init_read_def Let_def fs_file_size_def dm_ready_def dm_source_def ifs_opened_def
      dmf_new_def data_mgr.defs ofs_closed_def)

text \<open>The end of a download: the socket is closed, and nothing in the file system has changed.\<close>

lemma run_end_source:
  assumes "has_source fl False r"
  shows "\<exists>d. run_end dev_ok r = Inr (r\<lparr>sess := (sess r)\<lparr>file_man := Some d\<rparr>\<rparr>, [Close_fd (sock (sess r))])"
proof -
  obtain d where d: "file_man (sess r) = Some d" "request_type d = srv_read" "\<not> os_opened (file_out d)"
    using assms by (auto simp: has_source_def split: option.splits)
  have "\<exists>d'. dm_close (world r) d dev_ok = Inr (d', world r, [])"
    using d(2,3) by (simp add: dm_close_def Let_def)
  then show ?thesis using d(1) by (auto simp: run_end_def socket_close_def)
qed

section \<open>Properties of downloads\<close>

text \<open>The loop of a download.\<close>

lemma download_loop:
  assumes "what_ok fs" "prepare (session_new st) ad pkt n = Inr (True, s)" "o_request_type (opts s) = srv_read"
    "find_for_read fs st (o_filename (opts s)) = Inr (Some p)" "fs_open_in fs p = Some fl"
    "fs_stat fs p = Inr (Some (Reg fl))" "length fl < 2 ^ 61"
    "windowsize s = 1" "bs = unat (block_size s)" "0 < bs" "bs \<le> 65531" "timeout (opts s) < 2 ^ 31 - 1"
    "0 \<le> e_socket e0" "e_bind e0 \<noteq> - 1"
    "opened (opts s) ad (timeout (opts s)) es0" "served ad (timeout (opts s)) 1 (last_block bs fl) es"
  obtains r where "run_loop (e0 # es0 @ es) (run_start fs s) = Inr r" "is_finished (sess r)" "\<not> was_error (sess r)"
    "sent r = (if was_set_any (opts s) then [oack_pkt (opts s)] else []) @
       map (\<lambda>k. data_pkt (of_nat k) (block bs fl k)) [1..<Suc (last_block bs fl)]"
    "world r = fs" "sock (sess r) = e_socket e0" "has_source fl False r"
proof -
  obtain d where d: "dm_init fs st dmf_new (opts s) = Inr (True, None, d, fs)" "dm_ready d" "dm_source d = fl"
    "\<not> os_opened (file_out d)" "request_type d = srv_read"
    using dm_init_found [OF assms(3-6)] by blast
  obtain r0 where st0: "run_step e0 (run_start fs s) = Inr r0" and i0: "run_inv r0"
    and o0: "stat (sess r0) = ack_options" "\<not> was_error (sess r0)" "opts (sess r0) = opts s" "cl_addr (sess r0) = ad"
      "sock (sess r0) = e_socket e0" "sent r0 = []" "world r0 = fs" "\<not> last_blk_processed r0"
    and b0: "block_size (sess r0) = block_size s" "windowsize (sess r0) = windowsize s" "file_man (sess r0) = Some d"
    and nf: "\<not> is_finished (sess (run_start fs s))"
    by (rule session_begins [OF assms(1,2,13,14) d(1)])
  have dn0: "down fl r0" using i0 o0 b0 assms(7-12) by (simp add: down_def)
  have sr0: "has_source fl True r0" using d b0(3) by (simp add: has_source_def)
  obtain r1 where r1: "run_loop es0 r0 = Inr r1" "down fl r1" "has_source fl True r1" "stat (sess r1) = data_tx"
    "stage (sess r1) = 1" "sent r1 = opt_reply (opts s)" "world r1 = fs" "sock (sess r1) = e_socket e0"
    using loop_opened [OF dn0 sr0 o0(1) _ o0(8), of es0] o0 assms(3,15) by auto
  have k1: "opts (sess r1) = opts s" "cl_addr (sess r1) = ad"
    using reach_kept [OF run_loop_reach [OF r1(1)] i0] o0 by auto
  have "bs = unat (block_size (sess r1))" using assms(9) k1(1) block_size_opts by metis
  then obtain r2 where r2: "run_loop es r1 = Inr r2" "down fl r2" "world r2 = fs" "sock (sess r2) = e_socket e0"
    "sent r2 = opt_reply (opts s) @ map (\<lambda>k. data_pkt (of_nat k) (block bs fl k)) [1..<Suc (last_block bs fl)]"
    "stat (sess r2) = finish" "has_source fl False r2"
    using loop_served [OF assms(16) r1(2-5) _ _ refl] r1 k1 by (auto simp: last_block_def)
  have loop: "run_loop (e0 # es0 @ es) (run_start fs s) = Inr r2"
    unfolding run_loop_1 [OF nf st0] run_loop_append r1(1) using r2(1) by simp
  show ?thesis
    by (rule that [OF loop]) (use r2 in \<open>simp_all add: down_def opt_reply_def is_finished_def del: upt_Suc\<close>)
qed

text \<open>
  C3. A download delivers the file. If the requested file is found and can be read, the socket can be
  opened, the window is one block, and the client acknowledges every packet it is sent in time (first
  the option reply if it asked for options), then, whatever arrives from other addresses meanwhile and
  whatever the size of the file, \<open>run\<close> ends without error, has sent the option reply and the DATA
  packets of all blocks in order with their numbers modulo 65536, the blocks are together the file, the
  socket is closed and the file system is unchanged.
\<close>

theorem download_complete:
  assumes "what_ok fs" "prepare (session_new st) ad pkt n = Inr (True, s)" "o_request_type (opts s) = srv_read"
    "find_for_read fs st (o_filename (opts s)) = Inr (Some p)" "fs_open_in fs p = Some fl"
    "fs_stat fs p = Inr (Some (Reg fl))" "length fl < 2 ^ 61"
    "windowsize s = 1" "bs = unat (block_size s)" "0 < bs" "bs \<le> 65531" "timeout (opts s) < 2 ^ 31 - 1"
    "0 \<le> e_socket e0" "e_bind e0 \<noteq> - 1"
    "opened (opts s) ad (timeout (opts s)) es0" "served ad (timeout (opts s)) 1 (last_block bs fl) es"
  shows "\<exists>r. run (e0 # es0 @ es) dev_ok fs s = Inr (Some (r, [Close_fd (e_socket e0)])) \<and>
    sent r = (if was_set_any (opts s) then [oack_pkt (opts s)] else []) @
             map (\<lambda>k. data_pkt (of_nat k) (block bs fl k)) [1..<Suc (last_block bs fl)] \<and>
    concat (map (block bs fl) [1..<Suc (last_block bs fl)]) = fl \<and> \<not> was_error (sess r) \<and> world r = fs"
proof -
  obtain r where r: "run_loop (e0 # es0 @ es) (run_start fs s) = Inr r" "is_finished (sess r)" "\<not> was_error (sess r)"
    "sent r = (if was_set_any (opts s) then [oack_pkt (opts s)] else []) @
       map (\<lambda>k. data_pkt (of_nat k) (block bs fl k)) [1..<Suc (last_block bs fl)]"
    "world r = fs" "sock (sess r) = e_socket e0" "has_source fl False r"
    by (rule download_loop [OF assms])
  obtain d' where "run_end dev_ok r = Inr (r\<lparr>sess := (sess r)\<lparr>file_man := Some d'\<rparr>\<rparr>, [Close_fd (e_socket e0)])"
    (is "_ = Inr (?r, _)") using run_end_source [OF r(7), of dev_ok] r(6) by auto
  then have "run (e0 # es0 @ es) dev_ok fs s = Inr (Some (?r, [Close_fd (e_socket e0)]))"
    unfolding run_def r(1) using r(2) by simp
  then show ?thesis
    using r(3-5) concat_blocks [OF assms(10)] by (intro exI [of _ ?r]) (simp del: upt_Suc)
qed

lemma demo_answered: "0 \<le> tmo \<Longrightarrow> answered demo_client tmo k [quiet t, quiet t, from_client t (ack_pkt (of_nat k))]"
  by (simp add: answered_def waits_def ignored_def gives_def quiet_def from_client_def demo_client_rx)

definition demo_small_blocks :: "byte list" where
  "demo_small_blocks = demo_request [(''blksize'', ''2'')]"

lemma demo_small_prepared:
  "prepare (session_new demo_sett) demo_client demo_small_blocks (length demo_small_blocks) =
     Inr (True, demo_prepared demo_small_blocks)"
  by (rule demo_prepared) code_simp

lemma demo_small_opts:
  "opts (demo_prepared demo_small_blocks) =
     options_new\<lparr>o_request_type := srv_read, o_filename := ''fw.bin'', o_transfer_mode := tm_octet, o_blksize := (True, 2)\<rparr>"
  by code_simp

theorem download_complete_witness:
  "\<exists>r. run (quiet 0 # [quiet 1, quiet 1, from_client 1 (ack_pkt 0)] @ [quiet 2, quiet 2, from_client 2 (ack_pkt 1)] @
           [quiet 3, quiet 3, from_client 3 (ack_pkt 2)]) True demo_read_fs (demo_prepared demo_small_blocks) =
       Inr (Some (r, [Close_fd 5])) \<and>
     sent r = [oack_pkt (opts (demo_prepared demo_small_blocks)), data_pkt 1 ''ab'', data_pkt 2 ''c'']"
proof -
  let ?s = "demo_prepared demo_small_blocks"
  have f: "o_request_type (opts ?s) = srv_read"
    "find_for_read demo_read_fs demo_sett (o_filename (opts ?s)) = Inr (Some ''/r/fw.bin'')"
    "fs_open_in demo_read_fs ''/r/fw.bin'' = Some ''abc''" "fs_stat demo_read_fs ''/r/fw.bin'' = Inr (Some (Reg ''abc''))"
    by (simp_all add: demo_small_opts demo_file)
  have o: "windowsize ?s = 1" "2 = unat (block_size ?s)" "timeout (opts ?s) = 10" "was_set_any (opts ?s)"
    by (simp_all add: demo_small_opts opt_eval)
  have b: "last_block 2 ''abc'' = 2" "block 2 ''abc'' 1 = ''ab''" "block 2 ''abc'' 2 = ''c''" by code_simp+
  have sv: "served demo_client 10 1 2 ([quiet 2, quiet 2, from_client 2 (ack_pkt 1)] @ [quiet 3, quiet 3, from_client 3 (ack_pkt 2)])"
    using served_next [OF demo_answered [of 10 1 2], of 2] served_last [OF demo_answered [of 10 2 3]]
    by (simp add: numeral_2_eq_2)
  have op: "opened (opts ?s) demo_client (timeout (opts ?s)) [quiet 1, quiet 1, from_client 1 (ack_pkt 0)]"
    using o(3,4) demo_answered [of 10 0 1] by (simp add: opened_def)
  have q: "0 \<le> e_socket (quiet 0)" "e_bind (quiet 0) \<noteq> - 1" "e_socket (quiet 0) = 5" by (simp_all add: quiet_def)
  have sz: "length ''abc'' < 2 ^ 61" "0 < (2 :: nat)" "(2 :: nat) \<le> 65531" "timeout (opts ?s) < 2 ^ 31 - 1" using o(3) by simp_all
  note dl = download_complete [OF what_ok_demo demo_small_prepared f sz(1) o(1,2) sz(2-4) q(1,2) op, unfolded b o(3), OF sv]
  have m: "map (\<lambda>k. data_pkt (of_nat k) (block 2 ''abc'' k)) [1..<Suc 2] = [data_pkt 1 ''ab'', data_pkt 2 ''c'']"
    using b by (simp add: numeral_2_eq_2)
  show ?thesis using dl [where dev_ok = True] unfolding m q(3) using o(4) by auto
qed

section \<open>The first block is due\<close>

text \<open>
  A download for which the file is found comes to the state in which its first block is due; if there
  are options, after the client has acknowledged the reply.
\<close>

lemma reaches_data_tx:
  fixes e0 :: env
  assumes "what_ok fs" "prepare (session_new st) ad pkt n = Inr (True, s)" "o_request_type (opts s) = srv_read"
    "find_for_read fs st (o_filename (opts s)) = Inr (Some p)" "fs_open_in fs p = Some fl"
    "fs_stat fs p = Inr (Some (Reg fl))" "0 \<le> e_socket e0" "e_bind e0 \<noteq> - 1" "gives ad (ack_pkt 0) e2"
  shows "\<exists>r. sess_reach (run_start fs s) r \<and> run_inv r \<and> has_source fl True r \<and> stat (sess r) = data_tx \<and>
    stage (sess r) = 1 \<and> \<not> was_error (sess r) \<and> retr_count r = 0 \<and> sent r = opt_reply (opts s) \<and>
    opts (sess r) = opts s \<and> cl_addr (sess r) = ad \<and> sess_settings (sess r) = st"
proof -
  obtain d where d: "dm_init fs st dmf_new (opts s) = Inr (True, None, d, fs)" "dm_ready d" "dm_source d = fl"
    "\<not> os_opened (file_out d)" "request_type d = srv_read" using dm_init_found [OF assms(3-6)] by blast
  have "o_request_type (opts s) \<noteq> srv_unknown" using assms(3) by simp
  then obtain r where r: "sess_reach (run_start fs s) r" "run_inv r" "stat (sess r) = next_state (opts s)"
    "stage (sess r) = first_stage (opts s)" "\<not> was_error (sess r)" "opts (sess r) = opts s" "cl_addr (sess r) = ad"
    "sess_settings (sess r) = st" "file_man (sess r) = Some d" "sent r = opt_reply (opts s)" "\<not> last_blk_processed r"
    "retr_count r = 0"
    by (rule session_opens [OF assms(1,2,7,8) d(1)])
  show ?thesis
  proof (cases "was_set_any (opts s)")
    case False
    then show ?thesis
      using r d assms(3) by (intro exI [of _ r]) (simp add: has_source_def next_state_def first_stage_def)
  next
    case True
    then have st: "stat (sess r) = ack_rx" "stage (sess r) = 0" using r(3,4) assms(3) by (simp_all add: next_state_def first_stage_def)
    obtain b' where b': "run_step e2 r = Inr (r\<lparr>local_buf := b',
        sess := (sess r)\<lparr>stat := data_tx, stage := 1\<rparr>, oper_time := e_time e2\<rparr>)" (is "_ = Inr ?r3")
      using step_take_ack [of r e2] run_invD(1) [OF r(2)] st r(7,11) assms(9) by auto
    have "run_inv ?r3" using run_step_ok [OF r(2) b'] by simp
    moreover have "sess_reach (run_start fs s) ?r3"
      using reach_step [OF r(1) iterate [OF _ b']] st(1) by (simp add: is_finished_def)
    ultimately show ?thesis
      using d r by (intro exI [of _ ?r3]) (simp add: has_source_def was_error_def)
  qed
qed

lemma demo_data_tx:
  assumes "prepare (session_new demo_sett) demo_client pkt (length pkt) = Inr (True, s)" "o_request_type (opts s) = srv_read"
    "o_filename (opts s) = ''fw.bin''"
  shows "\<exists>r. sess_reach (run_start demo_read_fs s) r \<and> run_inv r \<and>
     has_source ''abc'' True r \<and> stat (sess r) = data_tx \<and> stage (sess r) = 1 \<and> \<not> was_error (sess r) \<and>
     retr_count r = 0 \<and> sent r = opt_reply (opts s) \<and> opts (sess r) = opts s \<and>
     cl_addr (sess r) = demo_client \<and> sess_settings (sess r) = demo_sett"
proof -
  have e: "0 \<le> e_socket (quiet 0)" "e_bind (quiet 0) \<noteq> - 1" "gives demo_client (ack_pkt 0) (from_client 0 (ack_pkt 0))"
    by (simp_all add: quiet_def gives_def from_client_def demo_client_rx)
  show ?thesis
    using reaches_data_tx [OF what_ok_demo assms(1,2) _ demo_file(2,3) e] demo_file(1) assms(3) by simp
qed

lemma demo_plain_data_tx:
  "\<exists>r. sess_reach (run_start demo_read_fs (demo_prepared (demo_request []))) r \<and> down ''abc'' r \<and>
     has_source ''abc'' True r \<and> stat (sess r) = data_tx \<and> stage (sess r) = 1 \<and> 512 = unat (block_size (sess r)) \<and>
     retr_count r = 0 \<and> sent r = [] \<and> opts (sess r) = opts (demo_prepared (demo_request [])) \<and>
     cl_addr (sess r) = demo_client \<and> sess_settings (sess r) = demo_sett"
proof -
  let ?s = "demo_prepared (demo_request [])"
  have o: "o_request_type (opts ?s) = srv_read" "o_filename (opts ?s) = ''fw.bin''"
    "windowsize ?s = 1" "unat (block_size ?s) = 512" "timeout (opts ?s) = 10" "\<not> was_set_any (opts ?s)"
    by (simp_all add: demo_plain_opts opt_eval)
  obtain r where r: "sess_reach (run_start demo_read_fs ?s) r" "run_inv r" "has_source ''abc'' True r" "stat (sess r) = data_tx"
    "stage (sess r) = 1" "\<not> was_error (sess r)" "retr_count r = 0" "sent r = opt_reply (opts ?s)" "opts (sess r) = opts ?s"
    "cl_addr (sess r) = demo_client" "sess_settings (sess r) = demo_sett"
    using demo_data_tx [OF demo_read_prepared o(1,2)] by blast
  have "down ''abc'' r"
    using r(2,6,9) o(3-5) windowsize_opts [OF r(9)] block_size_opts [OF r(9)] by (simp add: down_def)
  then show ?thesis
    using r o(4,6) block_size_opts [OF r(9)] by (intro exI [of _ r]) (simp add: opt_reply_def)
qed

end
