(* ===== verification/ReadSafety.thy ===== *)
theory ReadSafety
  imports Download
begin

text \<open>
  What a download sends, for every client and every network. The invariant follows the stage and the
  state of the input stream through all states of the loop; it holds as long as no packet has been
  repeated, and always if the last block is empty and there was no option reply. (A repeated last
  block that is not empty is not read from the file again, see \<open>stale_last_block\<close>.)
\<close>

section \<open>The packets that may be sent\<close>

definition sound_pkt :: "nat \<Rightarrow> byte list \<Rightarrow> options \<Rightarrow> byte list \<Rightarrow> bool" where
  "sound_pkt n fl o' p \<longleftrightarrow>
     (\<exists>k \<in> {1..last_block n fl}. p = data_pkt (of_nat k) (block n fl k)) \<or> p = oack_pkt o' \<or>
     (\<exists>c m. p = error_pkt c m)"

abbreviation bsize :: "run_state \<Rightarrow> nat" where
  "bsize r \<equiv> unat (block_size (sess r))"

text \<open>Nothing has been repeated, or what is repeated can be read again.\<close>

definition fresh :: "byte list \<Rightarrow> run_state \<Rightarrow> bool" where
  "fresh fl r \<longleftrightarrow> retr_count r = 0 \<or> (bsize r dvd length fl \<and> \<not> was_set_any (opts (sess r)))"

definition ready :: "run_state \<Rightarrow> bool" where
  "ready r \<longleftrightarrow> (case file_man (sess r) of None \<Rightarrow> False | Some d \<Rightarrow> dm_ready d)"

definition source_is :: "byte list \<Rightarrow> run_state \<Rightarrow> bool" where
  "source_is fl r \<longleftrightarrow> (case file_man (sess r) of None \<Rightarrow> False | Some d \<Rightarrow> dm_source d = fl)"

definition stage_inv :: "byte list \<Rightarrow> run_state \<Rightarrow> bool" where
  "stage_inv fl r \<longleftrightarrow>
     (case stat (sess r) of
        ack_options \<Rightarrow> ready r \<and> \<not> last_blk_processed r
      | data_tx \<Rightarrow> ready r \<and> 1 \<le> stage (sess r) \<and> stage (sess r) \<le> last_block (bsize r) fl + 1
      | error_and_stop \<Rightarrow> True
      | finish \<Rightarrow> True
      | _ \<Rightarrow>
          stage (sess r) \<le> last_block (bsize r) fl \<and> (was_set_any (opts (sess r)) \<or> 1 \<le> stage (sess r)) \<and>
          (last_blk_processed r \<or> stage (sess r) < last_block (bsize r) fl) \<and>
          (last_blk_processed r \<and> \<not> bsize r dvd length fl \<or> ready r))"

definition blocks_inv :: "byte list \<Rightarrow> run_state \<Rightarrow> bool" where
  "blocks_inv fl r \<longleftrightarrow> list_all (sound_pkt (bsize r) fl (opts (sess r))) (sent r) \<and>
     (stat (sess r) = finish \<or>
      read_safe r \<and> 0 < bsize r \<and> length fl < 2 ^ 61 \<and> source_is fl r \<and> stage_inv fl r)"

section \<open>Every step keeps the invariant\<close>

lemma dm_read_beyond:
  assumes "dm_ready d" "length (dm_source d) < p" "p < 2 ^ 63"
  shows "\<exists>d'. dm_read d n p = Inr (int (length (dm_source d)) - int p, [], None, d') \<and> dm_source d' = dm_source d"
proof -
  let ?f = "file_in d"
  have f: "\<not> is_eof ?f" "\<not> is_fail ?f" "is_opened ?f" "request_type d = srv_read" "file_size d = length (is_data ?f)"
    using assms(1) by (auto simp: dm_ready_def)
  obtain cp f1 where t: "ifs_tellg ?f = (cp, f1)" by fastforce
  have "ssize_of (length (is_data ?f)) = int (length (is_data ?f))" "ssize_of p = int p"
    using assms(2,3) by (simp_all add: ssize_of_def dm_source_def)
  then show ?thesis
    using seek_to [OF f(1,2) assms(3) t] f t assms(2) by (simp add: dm_read_def dm_source_def)
qed

lemma sound_kept:
  assumes "run_step e r = Inr r'" "run_inv r" "list_all (sound_pkt (bsize r) fl (opts (sess r))) (sent r)"
    "sent r' = sent r @ ps" "list_all (sound_pkt (bsize r) fl (opts (sess r))) ps"
  shows "list_all (sound_pkt (bsize r') fl (opts (sess r'))) (sent r')"
proof -
  have "opts (sess r') = opts (sess r)" using run_step_ok [OF assms(2,1)] by (simp add: step_rel_def)
  then show ?thesis using assms(3-5) block_size_opts [of "sess r'" "sess r"] by simp
qed

text \<open>Behind the last block there is nothing to read; an error is set.\<close>

lemma construct_beyond:
  assumes "sbuf_ok b" "file_man s = Some d" "dm_ready d" "0 < unat (block_size s)" "unat (block_size s) \<le> 65531"
    "length (dm_source d) < 2 ^ 61" "stage s = last_block (unat (block_size s)) (dm_source d) + 1"
  shows "\<exists>s' b' d'. construct_data s b = Inr (s', b') \<and> was_error s' \<and> stat s' = stat s \<and>
    file_man s' = Some d' \<and> dm_source d' = dm_source d"
proof -
  let ?n = "unat (block_size s)" and ?fl = "dm_source d"
  let ?p = "last_block ?n ?fl * ?n"
  have p: "length ?fl < ?p" "?p \<le> length ?fl + ?n"
    using assms(4) dividend_less_div_times [of ?n "length ?fl"] by (simp_all add: last_block_def)
  have "blk_pos s = ?p"
    using assms(5-7) p last_block_bound [of ?n ?fl] by (subst blk_pos_eq) auto
  then obtain d' where rd: "dm_read d ?n (blk_pos s) = Inr (int (length ?fl) - int ?p, [], None, d')"
    "dm_source d' = ?fl" using dm_read_beyond [OF assms(3) p(1)] assms(5,6) p(2) by auto
  have "\<not> 0 \<le> int (length ?fl) - int ?p" using p(1) by linarith
  then show ?thesis
    using construct_data_eq [OF assms(1,2,5) rd(1)] rd(2)
    by (simp add: Let_def dm_callback_def set_error_was_error)
qed

text \<open>A DATA packet of a block of the file is sent, or an error is set and nothing is sent.\<close>

lemma data_tx_outcome:
  assumes "sbuf_ok (local_buf r)" "file_man (sess r) = Some d" "dm_ready d" "0 < bsize r" "bsize r \<le> 65531"
    "length (dm_source d) < 2 ^ 61" "1 \<le> stage (sess r)" "stage (sess r) \<le> last_block (bsize r) (dm_source d) + 1"
    "stat (sess r) = data_tx" "run_step e r = Inr r'"
  shows "source_is (dm_source d) r' \<and>
    (stat (sess r') = error_and_stop \<and> sent r' = sent r \<or>
     stage (sess r) \<le> last_block (bsize r) (dm_source d) \<and> stage (sess r') = stage (sess r) \<and>
     stat (sess r') \<in> {ack_rx, data_tx} \<and>
     sent r' = sent r @ [data_pkt (of_nat (stage (sess r))) (block (bsize r) (dm_source d) (stage (sess r)))] \<and>
     (last_blk_processed r' \<longleftrightarrow> stage (sess r) = last_block (bsize r) (dm_source d)) \<and>
     (stat (sess r') = data_tx \<longrightarrow> \<not> last_blk_processed r') \<and>
     (\<not> last_blk_processed r' \<or> bsize r dvd length (dm_source d) \<longrightarrow> ready r'))"
proof (cases "stage (sess r) \<le> last_block (bsize r) (dm_source d)")
  case True
  let ?n = "bsize r" and ?fl = "dm_source d" and ?k = "stage (sess r)"
  obtain d' b' where c: "construct_data (sess r) (local_buf r) = Inr ((sess r)\<lparr>file_man := Some d'\<rparr>, b')"
    "content b' = data_pkt (of_nat ?k) (block ?n ?fl ?k)" "data_size b' = 4 + length (block ?n ?fl ?k)"
    "dm_source d' = ?fl" "?k < last_block ?n ?fl \<or> ?n dvd length ?fl \<longrightarrow> dm_ready d'"
    using construct_block [OF assms(1-6) _ True] assms(7) by auto
  have full: "length (block ?n ?fl ?k) = ?n \<longleftrightarrow> ?k \<noteq> last_block ?n ?fl"
    using block_full [of ?k ?n ?fl] block_last_short [OF assms(4), of ?fl] True assms(7) by fastforce
  have bs: "full_data_size ((sess r)\<lparr>file_man := Some d'\<rparr>) = 4 + ?n"
    by (simp add: full_data_size_def block_size_def)
  let ?s = "(sess r)\<lparr>file_man := Some d'\<rparr>"
  let ?r1 = "r\<lparr>sess := ?s, local_buf := b'\<rparr>"
  let ?r2 = "(send_buf e ?r1)\<lparr>last_blk_processed := (?k = last_block ?n ?fl)\<rparr>"
  have "run_step e r = Inr (if \<not> was_error (sess r) then
      (if is_window_close ?s ?k \<or> ?k = last_block ?n ?fl then goto_state ack_rx (timeout_reset e ?r2) else ?r2)
      else goto_state error_and_stop ?r1)" (is "_ = Inr ?r'")
    using assms(9) c(1,3) full bs by (simp add: run_step_def step_data_tx_def Let_def was_error_file_man)
  then have r': "r' = ?r'" using assms(10) by simp
  have tx: "snd (transmit_no_wait s b' v) = [data_pkt (of_nat ?k) (block ?n ?fl ?k)]" for s v
    using c(2,3) by (simp add: transmit_no_wait_def)
  show ?thesis
    using assms(9) c(4,5) True unfolding r'
    by (auto simp: source_is_def ready_def goto_state_stat send_buf_def tx)
next
  case False
  then have k: "stage (sess r) = last_block (bsize r) (dm_source d) + 1" using assms(8) by simp
  obtain s' b' d' where c: "construct_data (sess r) (local_buf r) = Inr (s', b')" "was_error s'" "stat s' = stat (sess r)"
    "file_man s' = Some d'" "dm_source d' = dm_source d"
    using construct_beyond [OF assms(1-6) k] by blast
  then have "r' = goto_state error_and_stop (r\<lparr>sess := s', local_buf := b'\<rparr>)"
    using assms(9,10) by (simp add: run_step_def step_data_tx_def Let_def)
  then show ?thesis using c assms(9) by (simp add: source_is_def goto_state_stat)
qed

lemma blocks_invI:
  assumes "blocks_inv fl r" "stat (sess r) \<noteq> finish" "run_step e r = Inr r'" "sent r' = sent r @ ps"
    "list_all (sound_pkt (bsize r) fl (opts (sess r))) ps" "source_is fl r'"
    "bsize r' = bsize r \<Longrightarrow> opts (sess r') = opts (sess r) \<Longrightarrow> stage_inv fl r'"
  shows "blocks_inv fl r'"
proof -
  have i: "read_safe r" "0 < bsize r" "length fl < 2 ^ 61"
    "list_all (sound_pkt (bsize r) fl (opts (sess r))) (sent r)"
    using assms(1,2) by (auto simp: blocks_inv_def)
  have "run_inv r" using i(1) by (simp add: read_safe_def)
  then have same: "opts (sess r') = opts (sess r)" using run_step_ok [OF _ assms(3)] by (simp add: step_rel_def)
  then have n: "bsize r' = bsize r" using block_size_opts by metis
  have "read_safe r'" using read_safe_step [OF i(1), of e] assms(3) by auto
  then show ?thesis using i assms(4-7) n same by (simp add: blocks_inv_def)
qed

lemma data_tx_blocks:
  assumes "blocks_inv fl r" "stat (sess r) = data_tx" "run_step e r = Inr r'"
  shows "blocks_inv fl r'"
proof -
  have i: "read_safe r" "0 < bsize r" "length fl < 2 ^ 61" "1 \<le> stage (sess r)" "stage (sess r) \<le> last_block (bsize r) fl + 1"
    and "ready r" "source_is fl r"
    using assms(1,2) by (auto simp: blocks_inv_def stage_inv_def)
  then obtain d where d: "file_man (sess r) = Some d" "dm_ready d" "dm_source d = fl"
    by (auto simp: ready_def source_is_def split: option.splits)
  have inv: "sbuf_ok (local_buf r)" "bsize r \<le> 65531" using i(1) run_invD(1) by (auto simp: read_safe_def)
  note out = data_tx_outcome [OF inv(1) d(1,2) i(2) inv(2) _ i(4) _ assms(2,3), unfolded d(3), OF i(3,5)]
  let ?p = "data_pkt (of_nat (stage (sess r))) (block (bsize r) fl (stage (sess r)))"
  show ?thesis
  proof (cases "stat (sess r') = error_and_stop")
    case True
    then show ?thesis
      using out by (intro blocks_invI [OF assms(1) _ assms(3), of "[]"]) (auto simp: assms(2) stage_inv_def)
  next
    case False
    then have "sound_pkt (bsize r) fl (opts (sess r)) ?p" using out i(4) by (auto simp: sound_pkt_def)
    then show ?thesis
      using False out i(4)
      by (intro blocks_invI [OF assms(1) _ assms(3), of "[?p]"]) (auto simp: assms(2) stage_inv_def)
  qed
qed

text \<open>
  An accepted acknowledgement changes the stage to at most one more; what was sent stays, and the
  stream is not touched.
\<close>

lemma receive_ack_stage:
  assumes "receive_ack s k = (tr_ok, s')" "stage s < 2 ^ 62"
  shows "stage s' \<le> stage s + 1 \<and> s' = s\<lparr>stage := stage s'\<rparr>"
proof -
  have "rx_stage_ok s k" "s' = rx_set_stage s k" using assms(1) by (auto simp: receive_ack_def split: if_splits)
  then show ?thesis using rx_set_stage_eq(1,3) [OF _ assms(2)] by simp
qed

lemma receive_ack_rx:
  assumes "sbuf_ok b" "stat s = ack_rx" "receive_no_wait e s b = Inr (res, s', b')"
  shows "res = tr_ok \<and> (\<exists>k. receive_ack s k = (tr_ok, s')) \<or> res = tr_nop \<and> s' = s \<or> res = tr_fail"
proof (cases "e_rx e")
  case (Rx_errno n)
  then show ?thesis using assms(3) by (simp add: receive_errno split: if_splits)
next
  case (Rx_pkt pkt fr)
  show ?thesis
    using assms(2,3) receive_pkt_eq [OF assms(1) Rx_pkt, of s]
    by (auto simp: receive_ack_def split: if_splits)
qed

lemma ack_rx_outcome:
  assumes "sbuf_ok (local_buf r)" "stat (sess r) = ack_rx" "stage (sess r) < 2 ^ 62" "run_step e r = Inr r'"
  shows "file_man (sess r') = file_man (sess r) \<and> sent r' = sent r \<and> last_blk_processed r' = last_blk_processed r \<and>
    (stat (sess r') = finish \<or> stat (sess r') \<in> {ack_rx, retransmit} \<and> stage (sess r') = stage (sess r) \<or>
     stat (sess r') = data_tx \<and> \<not> last_blk_processed r \<and> 1 \<le> stage (sess r') \<and> stage (sess r') \<le> stage (sess r) + 2)"
proof -
  obtain res s b where rc: "receive_no_wait e (sess r) (local_buf r) = Inr (res, s, b)" "file_man s = file_man (sess r)"
    using receive_in_ack_rx [OF assms(1,2)] by blast
  have st: "stat s = ack_rx"
    using receive_frame [OF assms(1) rc(1)] assms(2) by (simp add: same_session_def)
  have step: "(case res of tr_nop \<Rightarrow> poll_timeout e (r\<lparr>sess := s, local_buf := b\<rparr>)
     | tr_ok \<Rightarrow> Inr (if last_blk_processed r then goto_state finish (r\<lparr>sess := s, local_buf := b\<rparr>)
          else timeout_reset e (inc_stage (goto_state data_tx (r\<lparr>sess := s, local_buf := b\<rparr>))))
     | tr_fail \<Rightarrow> Inr (goto_state error_and_stop (r\<lparr>sess := s, local_buf := b\<rparr>))) = Inr r'"
    using assms(2,4) rc(1) by (simp add: run_step_def step_ack_rx_def Let_def cong: triple_result.case_cong)
  consider (ok) k where "res = tr_ok" "receive_ack (sess r) k = (tr_ok, s)" | (nop) "res = tr_nop" "s = sess r" | (bad) "res = tr_fail"
    using receive_ack_rx [OF assms(1,2) rc(1)] by blast
  then show ?thesis
  proof cases
    case ok
    have s: "stage s \<le> stage (sess r) + 1" using receive_ack_stage [OF ok(2) assms(3)] by simp
    then have "sz_add (stage s) 1 = stage s + 1" using assms(3) by (simp add: sz_simps)
    then show ?thesis
      using step ok(1) rc(2) s st by (cases "last_blk_processed r") (auto simp: goto_state_stat)
  next
    case nop
    then show ?thesis
      using step rc(2) st by (auto simp: poll_timeout_def goto_state_stat split: sum.splits if_splits)
  next
    case bad
    then show ?thesis using step rc(2) st by (auto simp: goto_state_stat)
  qed
qed

lemma ack_rx_blocks:
  assumes "blocks_inv fl r" "stat (sess r) = ack_rx" "run_step e r = Inr r'"
  shows "blocks_inv fl r'"
proof -
  have i: "read_safe r" "length fl < 2 ^ 61" "source_is fl r" "stage_inv fl r"
    using assms(1,2) by (auto simp: blocks_inv_def)
  have b: "sbuf_ok (local_buf r)" using i(1) run_invD(1) by (auto simp: read_safe_def)
  have "stage (sess r) < 2 ^ 62"
    using i(2,4) assms(2) last_block_bound [of "bsize r" fl] by (simp add: stage_inv_def)
  note out = ack_rx_outcome [OF b assms(2) this assms(3)]
  have rd: "ready r' = ready r" "source_is fl r' = source_is fl r" using out by (simp_all add: ready_def source_is_def)
  show ?thesis
  proof (rule blocks_invI [OF assms(1) _ assms(3), of "[]"])
    assume same: "bsize r' = bsize r" "opts (sess r') = opts (sess r)"
    show "stage_inv fl r'"
      using i(4) assms(2) out unfolding stage_inv_def same rd by auto
  qed (use out i(3) rd assms(2) in auto)
qed

lemma options_blocks:
  assumes "blocks_inv fl r" "stat (sess r) = ack_options" "run_step e r = Inr r'"
  shows "blocks_inv fl r'"
proof -
  have i: "read_safe r" "source_is fl r" "ready r" "\<not> last_blk_processed r"
    using assms(1,2) by (auto simp: blocks_inv_def stage_inv_def)
  have inv: "run_inv r" "o_request_type (opts (sess r)) = srv_read" using i(1) by (auto simp: read_safe_def)
  obtain b where "run_step e r =
    Inr (r\<lparr>local_buf := b,
           sess := (sess r)\<lparr>stat := next_state (opts (sess r)), stage := first_stage (opts (sess r))\<rparr>,
           oper_time := e_time e, sent := sent r @ opt_reply (opts (sess r))\<rparr>)" (is "_ = Inr ?r'")
    using step_options [OF inv(1) assms(2)] inv(2) by auto
  then have r': "r' = ?r'" using assms(3) by simp
  show ?thesis
  proof (rule blocks_invI [OF assms(1) _ assms(3), of "opt_reply (opts (sess r))"])
    show "list_all (sound_pkt (bsize r) fl (opts (sess r))) (opt_reply (opts (sess r)))"
      by (simp add: opt_reply_def sound_pkt_def)
    show "stage_inv fl r'"
      using i inv(2) by (simp add: r' stage_inv_def next_state_def first_stage_def ready_def last_block_def)
  qed (use i(2) assms(2) in \<open>auto simp: r' source_is_def\<close>)
qed

lemma error_blocks:
  assumes "blocks_inv fl r" "stat (sess r) = error_and_stop" "run_step e r = Inr r'"
  shows "blocks_inv fl r'"
proof -
  have i: "read_safe r" "source_is fl r" "list_all (sound_pkt (bsize r) fl (opts (sess r))) (sent r)"
    using assms(1,2) by (auto simp: blocks_inv_def)
  then have inv: "run_inv r" by (simp add: read_safe_def)
  let ?p = "error_pkt (error_code (sess r)) (error_message (sess r))"
  have m: "length (error_message (sess r)) \<le> 65530" using run_invD(4) [OF inv] by simp
  have b: "sbuf_ok (local_buf r)" using run_invD(1) [OF inv] .
  have ne: "0 < length ?p" by (simp add: error_pkt_def)
  have out: "stat (sess r') = finish \<and> file_man (sess r') = file_man (sess r) \<and> (\<exists>ps. sent r' = sent r @ ps \<and> set ps \<subseteq> {?p})"
  proof (cases "was_error (sess r)")
    case True
    then show ?thesis
      using assms(2,3) construct_error_eq [OF b True m] error_pkt_sent(1) [OF b m, of "error_code (sess r)"] ne
      by (auto simp: run_step_def step_error_and_stop_def goto_state_stat send_buf_def transmit_no_wait_def)
  next
    case False
    then show ?thesis using assms(2,3) by (auto simp: run_step_def step_error_and_stop_def goto_state_stat)
  qed
  then obtain ps where "sent r' = sent r @ ps" "set ps \<subseteq> {?p}" by blast
  then show ?thesis
    using out i(2) by (intro blocks_invI [OF assms(1) _ assms(3), of ps])
      (auto simp: assms(2) list_all_iff sound_pkt_def stage_inv_def source_is_def)
qed

lemma retransmit_blocks:
  assumes "blocks_inv fl r" "stat (sess r) = retransmit" "run_step e r = Inr r'"
    "bsize r dvd length fl" "\<not> was_set_any (opts (sess r))"
  shows "blocks_inv fl r'"
proof -
  have i: "read_safe r" "source_is fl r" "stage_inv fl r" using assms(1,2) by (auto simp: blocks_inv_def)
  have rd: "o_request_type (opts (sess r)) = srv_read" using i(1) by (simp add: read_safe_def)
  have out: "stat (sess r') \<in> {error_and_stop, data_tx}" "file_man (sess r') = file_man (sess r)" "sent r' = sent r"
    "stage (sess r') = stage (sess r)"
    using assms(2,3) rd by (auto simp: run_step_def step_retransmit_def Let_def goto_state_stat split: if_splits)
  show ?thesis
  proof (rule blocks_invI [OF assms(1) _ assms(3), of "[]"])
    assume same: "bsize r' = bsize r" "opts (sess r') = opts (sess r)"
    show "stage_inv fl r'"
      using i(3) assms(2,4,5) out unfolding stage_inv_def same by (auto simp: ready_def)
  qed (use out i(2) assms(2) in \<open>auto simp: source_is_def\<close>)
qed

text \<open>A step to a state in which nothing was repeated comes from such a state.\<close>

lemma fresh_back:
  assumes "run_inv r" "retr_inv r" "retransmit_count (sess_settings (sess r)) < 0xFFFF" "run_step e r = Inr r'"
    "fresh fl r'"
  shows "fresh fl r" "stat (sess r) = retransmit \<Longrightarrow> bsize r dvd length fl \<and> \<not> was_set_any (opts (sess r))"
proof -
  have rel: "opts (sess r') = opts (sess r)"
    "retr_count r' = retr_count r + (if stat (sess r) = retransmit then 1 else 0)"
    using run_step_ok [OF assms(1,4)] by (auto simp: step_rel_def)
  have n: "bsize r' = bsize r" using rel(1) block_size_opts by metis
  have "retr_count r + 1 \<noteq> 0" if "stat (sess r) = retransmit"
  proof -
    have "unat (retr_count r) \<le> unat (retransmit_count (sess_settings (sess r)))"
      using assms(2) that by (auto simp: retr_inv_def Let_def)
    then have "unat (retr_count r) < 0xFFFF" using assms(3) by (simp add: word_less_nat_alt)
    then have "unat (retr_count r + 1) = unat (retr_count r) + 1" by (simp add: unat_word_ariths)
    then show ?thesis by auto
  qed
  then show "fresh fl r" "stat (sess r) = retransmit \<Longrightarrow> bsize r dvd length fl \<and> \<not> was_set_any (opts (sess r))"
    using assms(5) rel n by (auto simp: fresh_def split: if_splits)
qed

lemma blocks_step:
  assumes "blocks_inv fl r" "stat (sess r) \<noteq> finish" "run_step e r = Inr r'"
    "stat (sess r) = retransmit \<Longrightarrow> bsize r dvd length fl \<and> \<not> was_set_any (opts (sess r))"
  shows "blocks_inv fl r'"
proof -
  have "stat (sess r) \<notin> {need_init, data_rx, ack_tx}" using assms(1,2) by (auto simp: blocks_inv_def read_safe_def)
  then show ?thesis
    using assms(2,4) data_tx_blocks [OF assms(1) _ assms(3)] ack_rx_blocks [OF assms(1) _ assms(3)]
      options_blocks [OF assms(1) _ assms(3)] error_blocks [OF assms(1) _ assms(3)] retransmit_blocks [OF assms(1) _ assms(3)]
    by (cases "stat (sess r)") simp_all
qed

section \<open>From the begin of a session\<close>

lemma init_fails:
  assumes "prepare (session_new st) ad pkt n = Inr (True, s)" "e_socket e < 0 \<or> e_bind e = - 1"
    "run_step e (run_start fs s) = Inr r"
  shows "stat (sess r) = finish" "sent r = []" "file_man (sess r) = None" "sess_settings (sess r) = st"
proof -
  note f = prepare_facts [OF assms(1)]
  have "sess_init e fs (s\<lparr>stage := 0\<rparr>) = Inr (False, s\<lparr>stage := 0, sock := e_socket e\<rparr>, fs)"
    using assms(2) by (auto simp: sess_init_def Let_def)
  then have "r = goto_state finish ((run_start fs s)\<lparr>sess := s\<lparr>stage := 0, sock := e_socket e\<rparr>, world := fs\<rparr>)"
    using assms(3) f(1) by (simp add: run_step_def step_need_init_def run_start_def Let_def)
  then show "stat (sess r) = finish" "sent r = []" "file_man (sess r) = None" "sess_settings (sess r) = st"
    using f(1,6,7) by (simp_all add: goto_state_stat) (simp_all add: run_start_def)
qed

lemma first_step_blocks:
  assumes "what_ok fs" "prepare (session_new st) ad pkt n = Inr (True, s)" "o_request_type (opts s) = srv_read"
    "find_for_read fs st (o_filename (opts s)) = Inr (Some p)" "fs_open_in fs p = Some fl"
    "fs_stat fs p = Inr (Some (Reg fl))" "length fl < 2 ^ 61"
    "0 < unat (block_size s)" "unat (block_size s) \<le> 65531" "timeout (opts s) < 2 ^ 31 - 1"
    "run_step e (run_start fs s) = Inr r"
  shows "blocks_inv fl r"
proof (cases "e_socket e < 0 \<or> e_bind e = - 1")
  case True
  then show ?thesis using init_fails [OF assms(2) True assms(11)] by (simp add: blocks_inv_def)
next
  case False
  note f = prepare_facts [OF assms(2)]
  obtain d where d: "dm_init fs st dmf_new (opts s) = Inr (True, None, d, fs)" "dm_ready d" "dm_source d = fl"
    using dm_init_found [OF assms(3-6)] by blast
  have r: "r = (run_start fs s)\<lparr>sess := s\<lparr>stage := 0, sock := e_socket e, file_man := Some d, stat := ack_options\<rparr>, world := fs\<rparr>"
    using step_init_ok [OF assms(2) _ _ d(1), of e] False assms(11) by simp
  have "read_safe r"
    by (rule first_step_read_safe [OF prepared_run_inv [OF assms(1,2)] _ _ _ _ assms(11)])
      (use f(1) assms(3,9,10) r in \<open>simp_all add: run_start_def block_size_def\<close>)
  moreover have "bsize r = unat (block_size s)" by (simp add: r block_size_def)
  ultimately show ?thesis
    using assms(7,8) d r by (simp add: blocks_inv_def stage_inv_def ready_def source_is_def run_start_def)
qed

text \<open>
  C5. Nothing wrong is ever sent. In every state a download can reach, whatever packets and timeouts it
  gets and whatever the window, every packet it has sent is the DATA packet of a block of the file with
  the content of that block, the option reply, or an ERROR packet, if nothing had to be repeated yet;
  and also after repetitions, if the last block of the file is empty and no option was negotiated.
\<close>

theorem sent_blocks_correct:
  assumes "what_ok fs" "prepare (session_new st) ad pkt n = Inr (True, s)" "o_request_type (opts s) = srv_read"
    "find_for_read fs st (o_filename (opts s)) = Inr (Some p)" "fs_open_in fs p = Some fl"
    "fs_stat fs p = Inr (Some (Reg fl))" "length fl < 2 ^ 61"
    "bs = unat (block_size s)" "0 < bs" "bs \<le> 65531" "timeout (opts s) < 2 ^ 31 - 1" "retransmit_count st < 0xFFFF"
    "sess_reach (run_start fs s) r" "retr_count r = 0 \<or> (bs dvd length fl \<and> \<not> was_set_any (opts s))"
    "q \<in> set (sent r)"
  shows "(\<exists>k \<in> {1..last_block bs fl}. q = data_pkt (of_nat k) (block bs fl k)) \<or> q = oack_pkt (opts s) \<or>
    (\<exists>c m. q = error_pkt c m)"
proof -
  let ?r0 = "run_start fs s"
  note i0 = prepared_run_inv [OF assms(1,2)]
  have st0: "sess_settings (sess ?r0) = st" "opts (sess ?r0) = opts s"
    using prepare_facts(6) [OF assms(2)] by (simp_all add: run_start_def)
  have retr0: "retr_inv ?r0" by (simp add: retr_inv_def run_start_def)
  have same: "opts (sess r') = opts s" "bsize r' = bs" "run_inv r'" "retr_inv r'" "sess_settings (sess r') = st"
    if "sess_reach ?r0 r'" for r'
  proof -
    show o: "opts (sess r') = opts s" "sess_settings (sess r') = st" using reach_kept [OF that i0] st0 by simp_all
    show "bsize r' = bs" using assms(8) o(1) block_size_opts by metis
    show "run_inv r'" by (rule sess_reach_inv [OF that i0])
    show "retr_inv r'" using retr_inv_reach [OF that i0 retr0] st0 assms(12) by simp
  qed
  have "r = ?r0 \<or> (fresh fl r \<longrightarrow> blocks_inv fl r)"
    using assms(13)
  proof (induction "?r0" r rule: sess_reach.induct)
    case (reach_step r' r'')
    obtain e where e: "stat (sess r') \<noteq> finish" "run_step e r' = Inr r''"
      using reach_step.hyps(3) by (auto elim: sess_step.cases simp: is_finished_def)
    note s' = same [OF reach_step.hyps(1)]
    show ?case
    proof (cases "r' = ?r0")
      case True
      then show ?thesis
        using first_step_blocks [OF assms(1-7) _ _ assms(11)] e(2) assms(8-10) by blast
    next
      case False
      then show ?thesis
        using reach_step.hyps(2) fresh_back [OF s'(3,4) _ e(2)] blocks_step [OF _ e] s'(5) assms(12) by metis
    qed
  qed simp
  moreover have "fresh fl r" using assms(14) same(1,2) [OF assms(13)] by (simp add: fresh_def)
  ultimately have "list_all (sound_pkt bs fl (opts s)) (sent r)"
    using same(1,2) [OF assms(13)] by (auto simp: blocks_inv_def run_start_def)
  then show ?thesis using assms(15) by (auto simp: list_all_iff sound_pkt_def)
qed

text \<open>The example session after its first DATA packet.\<close>

lemma demo_first_block:
  "\<exists>r. sess_reach (run_start demo_read_fs (demo_prepared (demo_request []))) r \<and> retr_count r = 0 \<and>
     data_pkt 1 ''abc'' \<in> set (sent r)"
proof -
  obtain r where r: "sess_reach (run_start demo_read_fs (demo_prepared (demo_request []))) r" "down ''abc'' r"
    "has_source ''abc'' True r" "stat (sess r) = data_tx" "stage (sess r) = 1" "512 = bsize r" "retr_count r = 0"
    using demo_plain_data_tx by blast
  have bl: "last_block 512 ''abc'' = 1" "block 512 ''abc'' 1 = ''abc''" by code_simp+
  obtain r' where r': "run_step (quiet 2) r = Inr r'" "sent r' = sent r @ [data_pkt (of_nat 1) (block 512 ''abc'' 1)]"
    using step_send_block [OF r(2-4) r(5) [symmetric] _ r(6), of "quiet 2"] bl(1) by auto
  have "retr_count r' = 0"
    using run_step_ok [OF _ r'(1)] r(2,4,7) by (simp add: step_rel_def down_def)
  moreover have "sess_reach (run_start demo_read_fs (demo_prepared (demo_request []))) r'"
    using reach_step [OF r(1) iterate [OF _ r'(1)]] r(4) by (simp add: is_finished_def)
  ultimately show ?thesis using r'(2) bl(2) by (intro exI [of _ r']) simp
qed

theorem sent_blocks_correct_witness:
  "\<exists>r. sess_reach (run_start demo_read_fs (demo_prepared (demo_request []))) r \<and> data_pkt 1 ''abc'' \<in> set (sent r) \<and>
     ((\<exists>k \<in> {1..last_block 512 ''abc''}. data_pkt 1 ''abc'' = data_pkt (of_nat k) (block 512 ''abc'' k)) \<or>
      data_pkt 1 ''abc'' = oack_pkt (opts (demo_prepared (demo_request []))) \<or> (\<exists>c m. data_pkt 1 ''abc'' = error_pkt c m))"
proof -
  let ?s = "demo_prepared (demo_request [])"
  obtain r where r: "sess_reach (run_start demo_read_fs ?s) r" "retr_count r = 0" "data_pkt 1 ''abc'' \<in> set (sent r)"
    using demo_first_block by blast
  have f: "o_request_type (opts ?s) = srv_read"
    "find_for_read demo_read_fs demo_sett (o_filename (opts ?s)) = Inr (Some ''/r/fw.bin'')"
    "fs_open_in demo_read_fs ''/r/fw.bin'' = Some ''abc''" "fs_stat demo_read_fs ''/r/fw.bin'' = Inr (Some (Reg ''abc''))"
    by (simp_all add: demo_plain_opts demo_file)
  have o: "512 = unat (block_size ?s)" "timeout (opts ?s) < 2 ^ 31 - 1" "retransmit_count demo_sett < 0xFFFF"
    by (simp_all add: demo_plain_opts opt_eval demo_retransmit_count)
  have "0 < (512 :: nat)" "(512 :: nat) \<le> 65531" "length ''abc'' < 2 ^ 61" by simp_all
  then show ?thesis
    using sent_blocks_correct [OF what_ok_demo demo_read_prepared f _ o(1) _ _ o(2,3) r(1) disjI1 [OF r(2)] r(3)] r(1,3)
    by blast
qed

end
