(* ===== verification/Defects.thy ===== *)
theory Defects
  imports ReadSafety Upload
begin

text \<open>
  Sessions that do not do what they are meant to do: for each case the inputs and what the code does
  with them.
\<close>

section \<open>A repeated last block\<close>

text \<open>Reading a last block that is not empty ends in the failed state, and the manager reads nothing more.\<close>

lemma dm_read_last_fails:
  assumes "dm_ready d" "p < length (dm_source d)" "length (dm_source d) < p + n" "length (dm_source d) < 2 ^ 63"
  shows "\<exists>ret got d'. dm_read d n p = Inr (ret, got, None, d') \<and> is_fail (file_in d') \<and> is_opened (file_in d') \<and>
    file_size d' = length (dm_source d) \<and> request_type d' = srv_read"
proof -
  have f: "\<not> is_eof (file_in d)" "\<not> is_fail (file_in d)" "is_opened (file_in d)" "request_type d = srv_read"
    "file_size d = length (dm_source d)" using assms(1) by (auto simp: dm_ready_def dm_source_def)
  have "is_fail (snd (ifs_read ((file_in d)\<lparr>is_pos := p\<rparr>) n))"
    using ifs_read_short [of "(file_in d)\<lparr>is_pos := p\<rparr>" n] f assms(2,3) by (simp add: dm_source_def)
  then show ?thesis using dm_read_ready [OF assms(1) _ assms(4), of p n] assms(2) f by simp
qed

lemma dm_read_failed:
  assumes "is_fail (file_in d)" "is_opened (file_in d)" "request_type d = srv_read" "p < file_size d"
    "file_size d < 2 ^ 63"
  shows "\<exists>d'. dm_read d n p = Inr (int (min n (file_size d - p)), [], None, d')"
proof -
  have s: "ssize_of (file_size d) = int (file_size d)" "ssize_of p = int p" using assms(4,5) by (simp_all add: sz_simps)
  have "\<exists>f3. ifs_read (if - 1 \<noteq> int p then ifs_seekg (file_in d) p else file_in d) n = ([], f3)"
    using ifs_failed(3) ifs_failed(2) [OF assms(1)] by auto
  then show ?thesis
    using assms ifs_failed(1) [OF assms(1)] s by (auto simp: dm_read_def Let_def min_def)
qed

lemma data_tx_file:
  assumes "sbuf_ok (local_buf r)" "stat (sess r) = data_tx" "file_man (sess r) = Some d" "bsize r \<le> 65531"
    "dm_read d (bsize r) (blk_pos (sess r)) = Inr (ret, got, err, d')" "run_step e r = Inr r'"
  shows "file_man (sess r') = Some d'"
  using assms(2,6) construct_data_eq [OF assms(1,3-5)]
  by (auto simp: run_step_def step_data_tx_def Let_def split: if_splits)

text \<open>What is sent then: the header, and whatever the buffer holds behind it.\<close>

lemma construct_stale:
  assumes "sbuf_ok b" "file_man s = Some d" "unat (block_size s) \<le> 65531" "m \<le> 65531"
    "dm_read d (unat (block_size s)) (blk_pos s) = Inr (int m, [], None, d')"
  shows "\<exists>b'. construct_data s b = Inr (s\<lparr>file_man := Some d'\<rparr>, b') \<and> data_size b' = 4 + m \<and>
    content b' = data_pkt (blk_num_local s) (take m (drop 4 (sb_buf b)))"
proof -
  let ?h = "u16_bytes 3 @ u16_bytes (blk_num_local s)"
  have l: "length ?h = 4" "4 + m \<le> length (sb_buf b)" using assms(1,4) by (simp_all add: sbuf_ok_def)
  have "data_buf s b [] = put_at (sb_buf b) 0 ?h" by (simp add: data_buf_def)
  also have "\<dots> = ?h @ drop 4 (sb_buf b)" by (simp add: put_at_def)
  finally have "take (4 + m) (data_buf s b []) = ?h @ take m (drop 4 (sb_buf b))" by simp
  then show ?thesis
    using construct_data_eq [OF assms(1-3,5)] by (simp add: Let_def dm_callback_def content_def data_pkt_def)
qed

lemma step_foreign:
  assumes "sbuf_ok (local_buf r)" "stat (sess r) = ack_rx" "e_rx e = Rx_pkt q fr" "rx_client fr \<noteq> a_bytes (cl_addr (sess r))"
    "timeout (opts (sess r)) < 2 ^ 31 - 1" "e_time e - oper_time r < timeout (opts (sess r)) + 1"
  shows "run_step e r = Inr (r\<lparr>local_buf := rx_buf (local_buf r) q\<rparr>)"
  using receive_pkt_eq [OF assms(1,3), of "sess r"] assms(2,4-6)
  by (simp add: run_step_def step_ack_rx_def poll_timeout_def timeout_pass_def Let_def)

text \<open>A timeout in \<open>ack_rx\<close> leads back to sending the same block.\<close>

lemma loop_timeout_read:
  assumes "stat (sess r) = ack_rx" "e_rx e = Rx_errno EAGAIN" "timeout (opts (sess r)) < 2 ^ 31 - 1"
    "timeout (opts (sess r)) + 1 \<le> e_time e - oper_time r" "o_request_type (opts (sess r)) = srv_read"
    "retr_count r + 1 \<le> get_retransmit_count (sess_settings (sess r))"
  shows "run_loop [e, e'] r =
    Inr (r\<lparr>sess := (sess r)\<lparr>stat := data_tx\<rparr>, retr_count := retr_count r + 1, oper_time := e_time e'\<rparr>)"
proof -
  have 1: "run_step e r = Inr (r\<lparr>sess := (sess r)\<lparr>stat := retransmit\<rparr>\<rparr>)" (is "_ = Inr ?r1")
    using assms(1-4) receive_errno [OF assms(2)]
    by (simp add: run_step_def step_ack_rx_def poll_timeout_def timeout_pass_def Let_def goto_state_def switch_to_def)
  have 2: "run_step e' ?r1 =
    Inr (r\<lparr>sess := (sess r)\<lparr>stat := data_tx\<rparr>, retr_count := retr_count r + 1, oper_time := e_time e'\<rparr>)"
    using assms(5,6)
    by (simp add: run_step_def step_retransmit_def Let_def goto_state_def switch_to_def timeout_reset_def not_less)
  show ?thesis using run_loop_1 [OF _ 1] 2 assms(1) by (simp add: is_finished_def)
qed

lemma loop_stale:
  assumes "sbuf_ok (local_buf r)" "stat (sess r) = ack_rx" "\<not> was_error (sess r)" "file_man (sess r) = Some d"
    "is_fail (file_in d)" "is_opened (file_in d)" "request_type d = srv_read" "blk_pos (sess r) < file_size d"
    "file_size d < 2 ^ 61" "bsize r \<le> 65531" "m = min (bsize r) (file_size d - blk_pos (sess r))"
    "o_request_type (opts (sess r)) = srv_read" "retr_count r + 1 \<le> get_retransmit_count (sess_settings (sess r))"
    "timeout (opts (sess r)) < 2 ^ 31 - 1"
    "e_rx e2 = Rx_pkt q fr" "rx_client fr \<noteq> a_bytes (cl_addr (sess r))" "e_time e2 - oper_time r < timeout (opts (sess r)) + 1"
    "4 + m \<le> length q" "length q \<le> 65535"
    "e_rx e3 = Rx_errno EAGAIN" "timeout (opts (sess r)) + 1 \<le> e_time e3 - oper_time r"
  shows "\<exists>r'. run_loop ([e2] @ [e3, e4] @ [e5]) r = Inr r' \<and>
    sent r' = sent r @ [data_pkt (blk_num_local (sess r)) (take m (drop 4 q))]"
proof -
  let ?b = "rx_buf (local_buf r) q"
  let ?r2 = "r\<lparr>local_buf := ?b\<rparr>"
  let ?s = "(sess r)\<lparr>stat := data_tx\<rparr>"
  let ?r4 = "?r2\<lparr>sess := ?s, retr_count := retr_count r + 1, oper_time := e_time e4\<rparr>"
  have nf: "\<not> is_finished (sess r)" "\<not> is_finished (sess ?r2)" "\<not> is_finished (sess ?r4)"
    using assms(2) by (simp_all add: is_finished_def)
  have 2: "run_step e2 r = Inr ?r2" by (rule step_foreign [OF assms(1,2,15,16,14,17)])
  have 4: "run_loop [e3, e4] ?r2 = Inr ?r4"
    using loop_timeout_read [of ?r2 e3 e4] assms(2,12-14,20,21) by simp
  have same: "bsize ?r4 = bsize r" "blk_pos ?s = blk_pos (sess r)" "blk_num_local ?s = blk_num_local (sess r)"
    by (simp_all add: block_size_def blk_pos_def blk_num_local_def)
  obtain d' where rd: "dm_read d (bsize r) (blk_pos (sess r)) = Inr (int m, [], None, d')"
    using dm_read_failed [OF assms(5-8), of "bsize r"] assms(9,11) by auto
  have "m \<le> 65531" using assms(10,11) by simp
  then obtain b' where c: "construct_data ?s ?b = Inr (?s\<lparr>file_man := Some d'\<rparr>, b')" "data_size b' = 4 + m"
    "content b' = data_pkt (blk_num_local (sess r)) (take m (drop 4 (sb_buf ?b)))"
    using construct_stale [OF sbuf_ok_rx_buf [OF assms(1), of q], of ?s d m d'] assms(4,10) rd same by auto
  have "take m (drop 4 (sb_buf ?b)) = take m (drop 4 q)"
    using take_rx_buf [OF assms(1), of "4 + m" q 4] assms(18,19) by (simp add: rx_cut_def)
  then obtain r' where 5: "run_step e5 ?r4 = Inr r'"
    "sent r' = sent r @ [data_pkt (blk_num_local (sess r)) (take m (drop 4 q))]"
    using c assms(3)
    by (auto simp: run_step_def step_data_tx_def Let_def was_error_def send_buf_def transmit_no_wait_def)
  have "run_loop ([e2] @ [e3, e4] @ [e5]) r = run_loop ([e3, e4] @ [e5]) ?r2"
    by (simp only: append_Cons append_Nil run_loop_1 [OF nf(1) 2])
  also have "\<dots> = run_loop [e5] ?r4" by (simp only: run_loop_append 4 sum.case)
  also have "\<dots> = Inr r'" using 5(1) nf(3) by simp
  finally show ?thesis using 5(2) by blast
qed

text \<open>
  C35. A repeated last block has wrong content. When the last block of a file is not empty, reading it
  leaves the input stream in the failed state, and a repetition sends whatever the packet buffer
  holds. Here a packet \<open>q\<close> from any address arrives after the last block was sent; after the timeout
  the client gets bytes of \<open>q\<close> as the last block of the file.
\<close>

theorem stale_last_block:
  assumes "down fl r" "has_source fl True r" "stat (sess r) = data_tx" "stage (sess r) = k" "n = unat (block_size (sess r))"
    "k = last_block n fl" "\<not> n dvd length fl" "o_request_type (opts (sess r)) = srv_read"
    "retr_count r + 1 \<le> get_retransmit_count (sess_settings (sess r))" "tmo = timeout (opts (sess r))"
    "e_rx e2 = Rx_pkt q fr" "rx_client fr \<noteq> a_bytes (cl_addr (sess r))" "e_time e2 - e_time e1 < tmo + 1"
    "4 + length (block n fl k) \<le> length q" "length q \<le> 65535"
    "e_rx e3 = Rx_errno EAGAIN" "tmo + 1 \<le> e_time e3 - e_time e1"
  shows "\<exists>r'. run_loop ([e1, e2] @ [e3, e4] @ [e5]) r = Inr r' \<and>
    sent r' = sent r @ [data_pkt (of_nat k) (block n fl k), data_pkt (of_nat k) (take (length (block n fl k)) (drop 4 q))]"
proof -
  obtain d where d: "file_man (sess r) = Some d" "dm_source d = fl" "dm_ready d"
    using assms(2) by (auto simp: has_source_def split: option.splits)
  have dn: "run_inv r" "0 < n" "n \<le> 65531" "length fl < 2 ^ 61" "timeout (opts (sess r)) < 2 ^ 31 - 1"
    using assms(1,5) by (auto simp: down_def)
  define p where "p = (k - 1) * n"
  have k: "0 < k" "k \<le> last_block n fl" using assms(6) by (simp_all add: last_block_def)
  have p: "p < length fl" "length fl < p + n" "length (block n fl k) = min n (length fl - p)"
    using last_block_pos [OF dn(2) assms(7)] by (simp_all add: p_def assms(6) length_block)
  have pos: "blk_pos s = p" if "stage s = k" "unat (block_size s) = n" for s
    using blk_pos_eq [of s] that k dn(4) last_block_bound [of n fl] p(1) by (simp add: p_def)
  obtain r1 where r1: "run_step e1 r = Inr r1" "down fl r1" "stat (sess r1) = ack_rx" "stage (sess r1) = k"
    "sent r1 = sent r @ [data_pkt (of_nat k) (block n fl k)]" "oper_time r1 = e_time e1"
    using step_send_block [OF assms(1-3) assms(4) [symmetric] k(1) assms(5) k(2)] by blast
  have rel: "opts (sess r1) = opts (sess r)" "cl_addr (sess r1) = cl_addr (sess r)"
    "sess_settings (sess r1) = sess_settings (sess r)" "retr_count r1 = retr_count r"
    using run_step_ok [OF dn(1) r1(1)] assms(3) by (auto simp: step_rel_def)
  have b1: "sbuf_ok (local_buf r1)" using r1(2) run_invD(1) by (auto simp: down_def)
  obtain ret got d1 where rd: "dm_read d n p = Inr (ret, got, None, d1)" "is_fail (file_in d1)" "is_opened (file_in d1)"
    "file_size d1 = length fl" "request_type d1 = srv_read"
    using dm_read_last_fails [OF d(3), of p n] d(2) p dn(4) by auto
  have fm: "file_man (sess r1) = Some d1"
    using data_tx_file [OF run_invD(1) [OF dn(1)] assms(3) d(1) _ _ r1(1)] rd(1) pos assms(4,5) dn(3) by auto
  have bs: "unat (block_size (sess r1)) = n" using assms(5) block_size_opts [OF rel(1)] by simp
  have err: "\<not> was_error (sess r1)" using r1(2) by (simp add: down_def)
  note pos1 = pos [OF r1(4) bs]
  have "\<exists>r'. run_loop ([e2] @ [e3, e4] @ [e5]) r1 = Inr r' \<and>
      sent r' = sent r1 @ [data_pkt (blk_num_local (sess r1)) (take (length (block n fl k)) (drop 4 q))]"
    by (rule loop_stale [OF b1 r1(3) err fm rd(2,3,5), unfolded bs pos1 rd(4) rel r1(6),
          OF p(1) dn(4,3) p(3) assms(8,9) dn(5) assms(11,12) assms(13) [unfolded assms(10)] assms(14-16)
          assms(17) [unfolded assms(10)]])
  then show ?thesis
    using run_loop_1 [OF _ r1(1), of "[e2] @ [e3, e4] @ [e5]"] assms(3) r1(4,5) by (auto simp: is_finished_def blk_num_local_eq)
qed

theorem stale_last_block_witness:
  "\<exists>r r' es. sess_reach (run_start demo_read_fs (demo_prepared (demo_request []))) r \<and> run_loop es r = Inr r' \<and>
     sent r' = [data_pkt 1 ''abc'', data_pkt 1 ''bad'']"
proof -
  obtain r where r: "sess_reach (run_start demo_read_fs (demo_prepared (demo_request []))) r" "down ''abc'' r"
    "has_source ''abc'' True r" "stat (sess r) = data_tx" "stage (sess r) = 1" "512 = unat (block_size (sess r))"
    "retr_count r = 0" "sent r = []" "opts (sess r) = opts (demo_prepared (demo_request []))"
    "cl_addr (sess r) = demo_client" "sess_settings (sess r) = demo_sett"
    using demo_plain_data_tx by blast
  have o: "o_request_type (opts (demo_prepared (demo_request []))) = srv_read" "timeout (opts (demo_prepared (demo_request []))) = 10"
    "retransmit_count demo_sett = 3" by (simp_all add: demo_plain_opts opt_eval demo_retransmit_count)
  have cl: "rx_client [] \<noteq> a_bytes demo_client" by code_simp
  have bl: "1 = last_block 512 ''abc''" "\<not> (512 :: nat) dvd length ''abc''" "block 512 ''abc'' 1 = ''abc''" by code_simp+
  let ?e = "(quiet 2)\<lparr>e_rx := Rx_pkt ''evilbad'' []\<rparr>"
  have "\<exists>r'. run_loop ([quiet 2, ?e] @ [quiet 99, quiet 99] @ [quiet 99]) r = Inr r' \<and>
    sent r' = sent r @ [data_pkt (of_nat 1) (block 512 ''abc'' 1),
      data_pkt (of_nat 1) (take (length (block 512 ''abc'' 1)) (drop 4 ''evilbad''))]"
    by (rule stale_last_block [OF r(2-6) bl(1,2), of 10])
      (use r(7-11) o cl bl(3) in \<open>simp_all add: quiet_def get_retransmit_count_def word_le_nat_alt\<close>)
  then obtain r' where "run_loop ([quiet 2, ?e] @ [quiet 99, quiet 99] @ [quiet 99]) r = Inr r'"
    "sent r' = [data_pkt 1 ''abc'', data_pkt 1 ''bad'']" using r(8) bl(3) by auto
  then show ?thesis using r(1) by blast
qed

section \<open>A window of several blocks\<close>

text \<open>The increment of the stage in \<open>data_tx\<close> is commented out; the same block is sent again.\<close>

lemma step_window:
  assumes "run_inv r" "\<not> was_error (sess r)" "has_source fl True r" "stat (sess r) = data_tx" "stage (sess r) = 1"
    "n = bsize r" "0 < n" "n \<le> 65531" "length fl < 2 ^ 61" "1 < windowsize (sess r)" "1 < last_block n fl"
  shows "\<exists>r'. run_step e r = Inr r' \<and> run_inv r' \<and> \<not> was_error (sess r') \<and> has_source fl True r' \<and>
    stat (sess r') = data_tx \<and> stage (sess r') = 1 \<and> bsize r' = n \<and> windowsize (sess r') = windowsize (sess r) \<and>
    sent r' = sent r @ [data_pkt 1 (block n fl 1)]"
proof -
  obtain d where d: "file_man (sess r) = Some d" "dm_source d = fl" "dm_ready d" "request_type d = srv_read"
    "\<not> os_opened (file_out d)" using assms(3) by (auto simp: has_source_def split: option.splits)
  obtain d' b' where c: "construct_data (sess r) (local_buf r) = Inr ((sess r)\<lparr>file_man := Some d'\<rparr>, b')"
    "content b' = data_pkt 1 (block n fl 1)" "data_size b' = 4 + length (block n fl 1)"
    "dm_source d' = fl" "dm_ready d'" "file_out d' = file_out d" "request_type d' = request_type d"
    using construct_block [OF run_invD(1) [OF assms(1)] d(1,3)] assms(5-11) d(2) by auto
  let ?s = "(sess r)\<lparr>file_man := Some d'\<rparr>"
  have full: "data_size b' = full_data_size ?s"
    using block_full [of 1 n fl] assms(6,11) c(3) by (simp add: full_data_size_def block_size_def)
  have w: "\<not> is_window_close ?s 1"
    using assms(10) windowsize_opts [of ?s "sess r"] by (simp add: is_window_close_def)
  have st: "run_step e r = Inr ((send_buf e (r\<lparr>sess := ?s, local_buf := b'\<rparr>))\<lparr>last_blk_processed := False\<rparr>)"
    (is "_ = Inr ?r'")
    using c(1,3) full w assms(2,4,5) by (simp add: run_step_def step_data_tx_def Let_def was_error_file_man)
  have "run_inv ?r'" using run_step_ok [OF assms(1) st] by simp
  then show ?thesis
    using st c d assms(2,4-6) block_size_opts [of ?s "sess r"] windowsize_opts [of ?s "sess r"]
    by (intro exI [of _ ?r'])
      (simp add: has_source_def was_error_file_man send_buf_def transmit_no_wait_def)
qed

text \<open>
  C36. A download with a window of two or more blocks never gets on: whatever arrives and however long
  it runs, the loop stays in the same state and sends the first block in every iteration, without
  waiting; it does not look at the packets of the client.
\<close>

theorem windowed_download_livelock:
  assumes "run_inv r" "\<not> was_error (sess r)" "has_source fl True r" "stat (sess r) = data_tx" "stage (sess r) = 1"
    "n = unat (block_size (sess r))" "0 < n" "n \<le> 65531" "length fl < 2 ^ 61" "1 < windowsize (sess r)" "1 < last_block n fl"
  shows "\<exists>r'. run_loop es r = Inr r' \<and> stat (sess r') = data_tx \<and> stage (sess r') = 1 \<and>
    sent r' = sent r @ replicate (length es) (data_pkt 1 (block n fl 1))"
  using assms
proof (induction es arbitrary: r)
  case (Cons e es)
  obtain r1 where r1: "run_step e r = Inr r1" "run_inv r1" "\<not> was_error (sess r1)" "has_source fl True r1"
    "stat (sess r1) = data_tx" "stage (sess r1) = 1" "n = bsize r1" "1 < windowsize (sess r1)"
    "sent r1 = sent r @ [data_pkt 1 (block n fl 1)]"
    using step_window [OF Cons.prems, of e] Cons.prems(10) by auto
  obtain r' where "run_loop es r1 = Inr r'" "stat (sess r') = data_tx" "stage (sess r') = 1"
    "sent r' = sent r1 @ replicate (length es) (data_pkt 1 (block n fl 1))"
    using Cons.IH [OF r1(2-7) Cons.prems(7-9) r1(8) Cons.prems(11)] by blast
  then show ?case using r1(1,9) Cons.prems(4) by (simp add: is_finished_def)
qed simp

definition demo_windowed :: "byte list" where
  "demo_windowed = demo_request [(''blksize'', ''2''), (''windowsize'', ''4'')]"

lemma demo_windowed_prepared:
  "prepare (session_new demo_sett) demo_client demo_windowed (length demo_windowed) = Inr (True, demo_prepared demo_windowed)"
  by (rule demo_prepared) code_simp

lemma demo_windowed_opts:
  "opts (demo_prepared demo_windowed) =
     options_new\<lparr>o_request_type := srv_read, o_filename := ''fw.bin'', o_transfer_mode := tm_octet,
       o_blksize := (True, 2), o_windowsize := (True, 4)\<rparr>"
  by code_simp

theorem windowed_download_livelock_witness:
  "\<exists>r. sess_reach (run_start demo_read_fs (demo_prepared demo_windowed)) r \<and>
     (\<exists>r'. run_loop (replicate 100 (quiet 5)) r = Inr r' \<and> stat (sess r') = data_tx \<and>
        sent r' = sent r @ replicate 100 (data_pkt 1 ''ab''))"
proof -
  let ?s = "demo_prepared demo_windowed"
  have o: "o_request_type (opts ?s) = srv_read" "o_filename (opts ?s) = ''fw.bin''" "windowsize ?s = 4" "unat (block_size ?s) = 2"
    by (simp_all add: demo_windowed_opts opt_eval)
  have bl: "1 < last_block 2 ''abc''" "block 2 ''abc'' 1 = ''ab''" by code_simp+
  obtain r where r: "sess_reach (run_start demo_read_fs ?s) r" "run_inv r" "has_source ''abc'' True r" "stat (sess r) = data_tx"
    "stage (sess r) = 1" "\<not> was_error (sess r)" "opts (sess r) = opts ?s"
    using demo_data_tx [OF demo_windowed_prepared o(1,2)] by blast
  have n: "2 = bsize r" "1 < windowsize (sess r)" using o(3,4) block_size_opts [OF r(7)] windowsize_opts [OF r(7)] by simp_all
  show ?thesis
    using windowed_download_livelock [OF r(2,6,3-5) n(1) _ _ _ n(2) bl(1), of "replicate 100 (quiet 5)"] bl(2) r(1) by auto
qed

section \<open>Uploads\<close>

text \<open>
  C37. A timeout while an upload waits for block \<open>k\<close> acknowledges that block, though it never arrived:
  the packet sent is the acknowledgement with number \<open>k\<close>, the next block expected is \<open>k + 1\<close>, and nothing was
  stored. A client that takes the acknowledgement as it is meant goes on with the next block, and the
  file has a hole.
\<close>

theorem timeout_acknowledges_missing_block:
  assumes "run_inv r" "stat (sess r) = data_rx" "stage (sess r) = k" "k < 2 ^ 62" "\<not> last_blk_processed r"
    "o_request_type (opts (sess r)) = srv_write" "retr_count r + 1 \<le> get_retransmit_count (sess_settings (sess r))"
    "timeout (opts (sess r)) < 2 ^ 31 - 1" "e_rx e1 = Rx_errno EAGAIN" "timeout (opts (sess r)) + 1 \<le> e_time e1 - oper_time r"
  shows "\<exists>r'. run_loop [e1, e2, e3] r = Inr r' \<and> sent r' = sent r @ [ack_pkt (of_nat k)] \<and> stage (sess r') = k + 1 \<and>
    stat (sess r') = data_rx \<and> file_man (sess r') = file_man (sess r)"
proof -
  have 1: "run_step e1 r = Inr (r\<lparr>sess := (sess r)\<lparr>stat := retransmit\<rparr>\<rparr>)" (is "_ = Inr ?r1")
    using assms(2,8-10) receive_errno [OF assms(9)]
    by (simp add: run_step_def step_data_rx_def poll_timeout_def timeout_pass_def Let_def goto_state_def switch_to_def)
  have 2: "run_step e2 ?r1 =
    Inr (r\<lparr>sess := (sess r)\<lparr>stat := ack_tx\<rparr>, retr_count := retr_count r + 1, oper_time := e_time e2\<rparr>)" (is "_ = Inr ?r2")
    using assms(6,7)
    by (simp add: run_step_def step_retransmit_def Let_def goto_state_def switch_to_def timeout_reset_def not_less)
  obtain b where 3: "run_step e3 ?r2 = Inr (?r2\<lparr>local_buf := b, sent := sent r @ [ack_pkt (of_nat k)],
      sess := (sess ?r2)\<lparr>stat := data_rx, stage := k + 1\<rparr>, oper_time := e_time e3\<rparr>)" (is "_ = Inr ?r3")
    using step_send_ack [of ?r2 e3] run_invD(1) [OF assms(1)] assms(3-5) by auto
  have "run_loop [e1, e2, e3] r = Inr ?r3"
    using 1 2 3 assms(2) by (simp add: is_finished_def)
  then show ?thesis by (intro exI [of _ ?r3]) simp
qed

lemma demo_data_rx:
  "\<exists>r. sess_reach (run_start demo_read_fs (demo_prepared demo_write_request)) r \<and> run_inv r \<and> stat (sess r) = data_rx \<and>
     stage (sess r) = 1 \<and> \<not> last_blk_processed r \<and> retr_count r = 0 \<and> oper_time r = 0 \<and> \<not> was_error (sess r) \<and>
     sent r = [oack_pkt (opts (demo_prepared demo_write_request))] \<and>
     opts (sess r) = opts (demo_prepared demo_write_request) \<and> cl_addr (sess r) = demo_client \<and> sess_settings (sess r) = demo_sett"
proof -
  let ?s = "demo_prepared demo_write_request"
  have f: "o_request_type (opts ?s) = srv_write" "''/r/new.bin'' = path_append (get_root_dir demo_sett) (o_filename (opts ?s))"
    "fs_stat demo_read_fs ''/r/new.bin'' = Inr None" "fs_creatable demo_read_fs (until_zero ''/r/new.bin'')"
    "was_set_any (opts ?s)" using demo_new_file by (simp_all add: demo_write_opts opt_eval)
  obtain d where d: "dm_init demo_read_fs demo_sett dmf_new (opts ?s) = Inr (True, None, d, fs_set demo_read_fs ''/r/new.bin'' [])"
    using dm_init_created [OF f(1-4)] by blast
  have e: "0 \<le> e_socket (quiet 0)" "e_bind (quiet 0) \<noteq> - 1" by (simp_all add: quiet_def)
  have "o_request_type (opts ?s) \<noteq> srv_unknown" using f(1) by simp
  then obtain r where r: "sess_reach (run_start demo_read_fs ?s) r" "run_inv r" "stat (sess r) = next_state (opts ?s)"
    "stage (sess r) = first_stage (opts ?s)" "\<not> was_error (sess r)" "opts (sess r) = opts ?s" "cl_addr (sess r) = demo_client"
    "sess_settings (sess r) = demo_sett" "sent r = opt_reply (opts ?s)" "\<not> last_blk_processed r"
    "retr_count r = 0" "oper_time r = e_time (quiet 0)"
    by (rule session_opens [OF what_ok_demo demo_write_prepared e d])
  then show ?thesis
    using f(1,5) by (intro exI [of _ r]) (simp add: next_state_def first_stage_def opt_reply_def quiet_def)
qed

theorem timeout_acknowledges_missing_block_witness:
  "\<exists>r. sess_reach (run_start demo_read_fs (demo_prepared demo_write_request)) r \<and>
     (\<exists>r'. run_loop [quiet 50, quiet 50, quiet 50] r = Inr r' \<and> sent r' = sent r @ [ack_pkt 1] \<and>
        stage (sess r') = 2 \<and> stat (sess r') = data_rx)"
proof -
  let ?s = "demo_prepared demo_write_request"
  have o: "o_request_type (opts ?s) = srv_write" "timeout (opts ?s) = 10" "retransmit_count demo_sett = 3"
    by (simp_all add: demo_write_opts opt_eval demo_retransmit_count)
  obtain r where r: "sess_reach (run_start demo_read_fs ?s) r" "run_inv r" "stat (sess r) = data_rx" "stage (sess r) = 1"
    "\<not> last_blk_processed r" "retr_count r = 0" "oper_time r = 0" "opts (sess r) = opts ?s" "sess_settings (sess r) = demo_sett"
    using demo_data_rx by blast
  have h: "retr_count r + 1 \<le> get_retransmit_count (sess_settings (sess r))" "timeout (opts (sess r)) < 2 ^ 31 - 1"
    "e_rx (quiet 50) = Rx_errno EAGAIN" "timeout (opts (sess r)) + 1 \<le> e_time (quiet 50) - oper_time r"
    "o_request_type (opts (sess r)) = srv_write"
    using r(6-9) o by (simp_all add: quiet_def get_retransmit_count_def word_le_nat_alt)
  have "(1 :: nat) < 2 ^ 62" by simp
  from timeout_acknowledges_missing_block [OF r(2-4) this r(5) h(5,1-4), of "quiet 50" "quiet 50"]
  obtain r' where r': "run_loop [quiet 50, quiet 50, quiet 50] r = Inr r'" "sent r' = sent r @ [ack_pkt (of_nat 1)]"
    "stage (sess r') = 1 + 1" "stat (sess r') = data_rx" by blast
  from r'(2,3) have "sent r' = sent r @ [ack_pkt 1]" "stage (sess r') = 2" by simp_all
  with r(1) r'(1,4) show ?thesis by blast
qed

section \<open>Errors\<close>

text \<open>
  C39. A DATA packet with a wrong block number, or an ACK packet with one, ends the session without an
  answer: the error is set, but the transition to the state that would send the ERROR packet is not
  one that \<open>switch_to\<close> accepts from a receiving state, so the session goes straight to its end.
\<close>

theorem wrong_block_not_answered:
  assumes "run_inv r" "\<not> was_error (sess r)"
    "stat (sess r) = data_rx \<and> gives (cl_addr (sess r)) (data_pkt k bs) e \<or>
     stat (sess r) = ack_rx \<and> gives (cl_addr (sess r)) (ack_pkt k) e" "length bs \<le> 65531"
    "\<not> rx_stage_ok (sess r) k"
  shows "\<exists>r'. run_step e r = Inr r' \<and> stat (sess r') = finish \<and> sent r' = sent r \<and> was_error (sess r')"
proof -
  have b: "sbuf_ok (local_buf r)" by (rule run_invD(1) [OF assms(1)])
  obtain q fr where e: "e_rx e = Rx_pkt q fr" "rx_client fr = a_bytes (cl_addr (sess r))"
    "stat (sess r) = data_rx \<and> q = data_pkt k bs \<or> stat (sess r) = ack_rx \<and> q = ack_pkt k"
    using assms(3) by (auto simp: gives_def split: rx_result.splits)
  have "\<exists>s b'. receive_no_wait e (sess r) (local_buf r) = Inr (tr_fail, s, b') \<and> stat s = stat (sess r) \<and> was_error s"
    using receive_pkt_eq [OF b e(1), of "sess r"] e(2,3) assms(5)
    by (auto simp: pkt_field_data pkt_field_ack receive_data_def receive_ack_def set_error_was_error)
  then obtain s b' where s: "receive_no_wait e (sess r) (local_buf r) = Inr (tr_fail, s, b')" "stat s = stat (sess r)" "was_error s"
    by blast
  let ?r' = "goto_state error_and_stop (r\<lparr>sess := s, local_buf := b'\<rparr>)"
  have "run_step e r = Inr ?r'"
    using s(1) e(3) by (auto simp: run_step_def step_data_rx_def step_ack_rx_def)
  moreover have "was_error (sess ?r')" using s(3) by (simp add: was_error_def)
  ultimately show ?thesis
    using s(2) e(3) by (intro exI [of _ ?r']) (auto simp: goto_state_stat)
qed

theorem wrong_block_not_answered_witness:
  "\<exists>r r'. sess_reach (run_start demo_read_fs (demo_prepared demo_write_request)) r \<and>
     run_step (from_client 1 (data_pkt 7 ''xy'')) r = Inr r' \<and> stat (sess r') = finish \<and> sent r' = sent r \<and> was_error (sess r')"
proof -
  obtain r where r: "sess_reach (run_start demo_read_fs (demo_prepared demo_write_request)) r" "run_inv r" "\<not> was_error (sess r)"
    "stat (sess r) = data_rx" "stage (sess r) = 1" "cl_addr (sess r) = demo_client"
    using demo_data_rx by blast
  have "\<not> rx_stage_ok (sess r) 7"
    using r(5) by (simp add: rx_stage_ok_def rx_stage_def blk_num_local_eq sz_simps)
  then have "\<exists>r'. run_step (from_client 1 (data_pkt 7 ''xy'')) r = Inr r' \<and> stat (sess r') = finish \<and> sent r' = sent r \<and> was_error (sess r')"
    by (intro wrong_block_not_answered [OF r(2,3), of 7 "''xy''"]) (use r(4,6) demo_delivered in simp_all)
  with r(1) show ?thesis by blast
qed

text \<open>
  C40. If the socket of a session cannot be opened or bound, the end of \<open>run\<close> uses the data manager
  that was never created: a null pointer, and the end of the server.
\<close>

theorem failed_socket_undefined:
  assumes "prepare (session_new st) ad pkt n = Inr (True, s)" "e_socket e < 0 \<or> e_bind e = - 1"
  shows "run (e # es) dev_ok fs s = Inl Undefined"
proof -
  note f = prepare_facts [OF assms(1)]
  have nf: "\<not> is_finished (sess (run_start fs s))" using f(1) by (simp add: run_start_def is_finished_def)
  have "sess_init e fs (s\<lparr>stage := 0\<rparr>) = Inr (False, s\<lparr>stage := 0, sock := e_socket e\<rparr>, fs)"
    using assms(2) by (auto simp: sess_init_def Let_def)
  then obtain r where r: "run_step e (run_start fs s) = Inr r"
    using f(1) by (simp add: run_step_def step_need_init_def run_start_def Let_def)
  note i = init_fails [OF assms r]
  then have "run_loop es r = Inr r" by (cases es) (simp_all add: is_finished_def)
  then show ?thesis
    unfolding run_def run_loop_1 [OF nf r] using i by (simp add: is_finished_def run_end_def)
qed

theorem failed_socket_undefined_witness:
  "run [(quiet 0)\<lparr>e_socket := - 1\<rparr>] True demo_read_fs (demo_prepared (demo_request [])) = Inl Undefined"
  by (rule failed_socket_undefined [OF demo_read_prepared]) simp

section \<open>A lost option reply\<close>

text \<open>The position of block 0 wraps around; seeking there puts the stream into the failed state.\<close>

lemma blk_pos_0:
  assumes "stage s = 0" "0 < unat (block_size s)" "unat (block_size s) < 2 ^ 63"
  shows "ssize_of (blk_pos s) = - int (unat (block_size s))"
proof -
  let ?n = "unat (block_size s)"
  have "sz_sub 0 1 = 2 ^ 64 - 1" using sz_sub_wraps [of 0 1] by simp
  moreover have "((2 :: nat) ^ 64 - 1) * ?n = (2 ^ 64 - ?n) + 2 ^ 64 * (?n - 1)"
    using assms(2,3) by (cases ?n) (simp_all add: algebra_simps)
  ultimately have "blk_pos s = ((2 ^ 64 - ?n) + 2 ^ 64 * (?n - 1)) mod 2 ^ 64"
    unfolding blk_pos_def sz_mul_def assms(1) by (simp only:)
  also have "\<dots> = (2 ^ 64 - ?n) mod 2 ^ 64" by (rule mod_mult_self2)
  finally have "blk_pos s = 2 ^ 64 - ?n" using assms(2,3) by simp
  moreover have "\<not> 2 ^ 64 - ?n < 2 ^ 63" "(2 ^ 64 - ?n) mod 2 ^ 64 = 2 ^ 64 - ?n" using assms(2,3) by simp_all
  moreover have "int (2 ^ 64 - ?n) = 2 ^ 64 - int ?n" using assms(3) by (simp add: of_nat_diff)
  ultimately show ?thesis unfolding ssize_of_def by (simp only: if_False)
qed

lemma dm_read_negative:
  assumes "dm_ready d" "ssize_of p = - int n" "0 < n" "length (dm_source d) < 2 ^ 62"
  shows "\<exists>d'. dm_read d n p = Inr (int n, [], None, d') \<and> is_fail (file_in d')"
proof -
  have f: "\<not> is_eof (file_in d)" "\<not> is_fail (file_in d)" "is_opened (file_in d)" "request_type d = srv_read"
    "file_size d = length (dm_source d)" using assms(1) by (auto simp: dm_ready_def dm_source_def)
  have sk: "ifs_tellg (file_in d) = (int (is_pos (file_in d)), file_in d)" "is_fail (ifs_seekg (file_in d) p)"
    using f assms(2,3) by (simp_all add: ifs_tellg_good ifs_seekg_def ifs_sentry_def)
  have "ssize_of (file_size d) = int (length (dm_source d))" using f(5) assms(4) by (simp add: sz_simps)
  then show ?thesis
    using f sk assms(2,3) ifs_failed(3) [OF sk(2)] by (simp add: dm_read_def Let_def)
qed

text \<open>
  C38. A lost option reply spoils the download. If the client does not acknowledge the option reply in
  time, the session does not repeat the reply; it sends a DATA packet with number 0, whose content is
  what the packet buffer happens to hold, and the input stream fails on the position of that block, so
  that no block is read from the file any more.
\<close>

theorem lost_option_reply:
  assumes "run_inv r" "\<not> was_error (sess r)" "has_source fl True r" "stat (sess r) = ack_rx" "stage (sess r) = 0"
    "n = unat (block_size (sess r))" "0 < n" "n \<le> 65531" "length fl < 2 ^ 61" "o_request_type (opts (sess r)) = srv_read"
    "retr_count r + 1 \<le> get_retransmit_count (sess_settings (sess r))" "timeout (opts (sess r)) < 2 ^ 31 - 1"
    "e_rx e1 = Rx_errno EAGAIN" "timeout (opts (sess r)) + 1 \<le> e_time e1 - oper_time r"
  shows "\<exists>r' d. run_loop ([e1, e2] @ [e3]) r = Inr r' \<and>
    sent r' = sent r @ [data_pkt 0 (take n (drop 4 (sb_buf (local_buf r))))] \<and>
    file_man (sess r') = Some d \<and> is_fail (file_in d)"
proof -
  obtain d where d: "file_man (sess r) = Some d" "dm_source d = fl" "dm_ready d"
    using assms(3) by (auto simp: has_source_def split: option.splits)
  let ?s = "(sess r)\<lparr>stat := data_tx\<rparr>"
  let ?r2 = "r\<lparr>sess := ?s, retr_count := retr_count r + 1, oper_time := e_time e2\<rparr>"
  have 2: "run_loop [e1, e2] r = Inr ?r2" by (rule loop_timeout_read [OF assms(4,13,12,14,10,11)])
  have n: "unat (block_size ?s) = n" using assms(6) by (simp add: block_size_def)
  have "ssize_of (blk_pos ?s) = - int n" using blk_pos_0 [of ?s] assms(5,7,8) n by simp
  then obtain d' where rd: "dm_read d n (blk_pos ?s) = Inr (int n, [], None, d')" "is_fail (file_in d')"
    using dm_read_negative [OF d(3), of "blk_pos ?s" n] assms(7,9) d(2) by auto
  obtain b' where c: "construct_data ?s (local_buf r) = Inr (?s\<lparr>file_man := Some d'\<rparr>, b')" "data_size b' = 4 + n"
    "content b' = data_pkt (blk_num_local ?s) (take n (drop 4 (sb_buf (local_buf r))))"
    using construct_stale [OF run_invD(1) [OF assms(1)], of ?s d n d'] d(1) n assms(8) rd(1) by auto
  have "blk_num_local ?s = 0" using assms(5) by (simp add: blk_num_local_eq)
  then obtain r' where "run_step e3 ?r2 = Inr r'" "file_man (sess r') = Some d'"
    "sent r' = sent r @ [data_pkt 0 (take n (drop 4 (sb_buf (local_buf r))))]"
    using c assms(2) by (auto simp: run_step_def step_data_tx_def Let_def was_error_def send_buf_def transmit_no_wait_def)
  moreover have "\<not> is_finished (sess ?r2)" by (simp add: is_finished_def)
  ultimately show ?thesis using 2 rd(2) by (intro exI [of _ r'] exI [of _ d']) (simp only: run_loop_append sum.case run_loop.simps if_False)
qed

theorem lost_option_reply_witness:
  "\<exists>r r' bs. sess_reach (run_start demo_read_fs (demo_prepared demo_small_blocks)) r \<and>
     run_loop ([quiet 50, quiet 50] @ [quiet 50]) r = Inr r' \<and> sent r' = sent r @ [data_pkt 0 bs]"
proof -
  let ?s = "demo_prepared demo_small_blocks"
  have f: "o_request_type (opts ?s) = srv_read"
    "find_for_read demo_read_fs demo_sett (o_filename (opts ?s)) = Inr (Some ''/r/fw.bin'')"
    "fs_open_in demo_read_fs ''/r/fw.bin'' = Some ''abc''" "fs_stat demo_read_fs ''/r/fw.bin'' = Inr (Some (Reg ''abc''))"
    by (simp_all add: demo_small_opts demo_file)
  have o: "unat (block_size ?s) = 2" "timeout (opts ?s) = 10" "was_set_any (opts ?s)" "retransmit_count demo_sett = 3"
    by (simp_all add: demo_small_opts opt_eval demo_retransmit_count)
  obtain d where d: "dm_init demo_read_fs demo_sett dmf_new (opts ?s) = Inr (True, None, d, demo_read_fs)" "dm_ready d"
    "dm_source d = ''abc''" "\<not> os_opened (file_out d)" "request_type d = srv_read" using dm_init_found [OF f] by blast
  have e: "0 \<le> e_socket (quiet 0)" "e_bind (quiet 0) \<noteq> - 1" by (simp_all add: quiet_def)
  have "o_request_type (opts ?s) \<noteq> srv_unknown" using f(1) by simp
  then obtain r where r: "sess_reach (run_start demo_read_fs ?s) r" "run_inv r" "stat (sess r) = next_state (opts ?s)"
    "stage (sess r) = first_stage (opts ?s)" "\<not> was_error (sess r)" "opts (sess r) = opts ?s"
    "sess_settings (sess r) = demo_sett" "file_man (sess r) = Some d" "retr_count r = 0" "oper_time r = e_time (quiet 0)"
    by (rule session_opens [OF what_ok_demo demo_small_prepared e d(1)])
  have st: "stat (sess r) = ack_rx" "stage (sess r) = 0" using r(3,4) f(1) o(3) by (simp_all add: next_state_def first_stage_def)
  have n: "2 = unat (block_size (sess r))" using o(1) block_size_opts [OF r(6)] by simp
  have src: "has_source ''abc'' True r" using r(8) d by (simp add: has_source_def)
  have h: "o_request_type (opts (sess r)) = srv_read" "retr_count r + 1 \<le> get_retransmit_count (sess_settings (sess r))"
    "timeout (opts (sess r)) < 2 ^ 31 - 1" "e_rx (quiet 50) = Rx_errno EAGAIN"
    "timeout (opts (sess r)) + 1 \<le> e_time (quiet 50) - oper_time r"
    using r(6,7,9,10) o f(1) by (simp_all add: quiet_def get_retransmit_count_def word_le_nat_alt)
  have "0 < (2 :: nat)" "(2 :: nat) \<le> 65531" "length ''abc'' < 2 ^ 61" by simp_all
  from lost_option_reply [OF r(2,5) src st n this h] r(1) show ?thesis by blast
qed

end
