(* ===== verification/Isolation.thy ===== *)
theory Isolation
  imports Srv Download
begin

text \<open>
  A session in the server and a session alone. The steps of the server get labels that say who acts;
  one session is followed through the list while others come, go and act in between. What it does is
  exactly what the loop of \<open>Session::run\<close> does with the inputs the session got, on the file system at
  its first iteration.
\<close>

section \<open>Who acts\<close>

datatype actor = Main_thread | Session_thread nat env | Session_exit nat bool | Stop_signal

inductive srv_act :: "actor \<Rightarrow> srv \<Rightarrow> srv \<Rightarrow> bool" where
  act_recv: "main_at v = At_recv \<Longrightarrow> main_recv rx v = Inr v' \<Longrightarrow> srv_act Main_thread v v'"
| act_reap: "main_at v = At_reap \<Longrightarrow> main_reap v = Some v' \<Longrightarrow> srv_act Main_thread v v'"
| act_loop: "i < length (sessions v) \<Longrightarrow> \<not> is_finished (sess (t_run (sessions v ! i))) \<Longrightarrow>
    thread_iterate e (shared_fs v) (sessions v ! i) = Inr tf \<Longrightarrow> srv_act (Session_thread i e) v (set_thread v i tf)"
| act_exit: "i < length (sessions v) \<Longrightarrow> is_finished (sess (t_run (sessions v ! i))) \<Longrightarrow>
    \<not> t_ended (sessions v ! i) \<Longrightarrow>
    thread_end dev_ok (shared_fs v) (sessions v ! i) = Inr tf \<Longrightarrow> srv_act (Session_exit i dev_ok) v (set_thread v i tf)"
| act_stop: "srv_act Stop_signal v (srv_stop v)"

inductive_cases srv_act_loopE: "srv_act (Session_thread i e) v v'"
inductive_cases srv_act_exitE: "srv_act (Session_exit i d) v v'"

lemma srv_step_act: "srv_step v v' \<longleftrightarrow> (\<exists>a. srv_act a v v')"
  by (auto elim!: srv_step.cases srv_act.cases intro: srv_step.intros srv_act.intros)

text \<open>Where the session at position \<open>j\<close> is after a step: \<open>reap\<close> may take out one before it.\<close>

fun reap_pos :: "thread list \<Rightarrow> nat \<Rightarrow> nat option" where
  "reap_pos [] j = None"
| "reap_pos (t # ts) j =
     (if is_finished (sess (t_run t)) then (case j of 0 \<Rightarrow> None | Suc k \<Rightarrow> Some k)
      else case j of 0 \<Rightarrow> Some 0 | Suc k \<Rightarrow> map_option Suc (reap_pos ts k))"

definition new_pos :: "actor \<Rightarrow> srv \<Rightarrow> nat \<Rightarrow> nat option" where
  "new_pos a v j = (if a = Main_thread \<and> main_at v = At_reap then reap_pos (sessions v) j else Some j)"

text \<open>
  \<open>follows v i es v' j\<close>: the session at position \<open>i\<close> of \<open>v\<close> is at position \<open>j\<close> of \<open>v'\<close>, and its iterations
  in between had the inputs \<open>es\<close>.
\<close>

inductive follows :: "srv \<Rightarrow> nat \<Rightarrow> env list \<Rightarrow> srv \<Rightarrow> nat \<Rightarrow> bool" for v i where
  follow_start: "follows v i [] v i"
| follow_other: "follows v i es v' j \<Longrightarrow> srv_act a v' v'' \<Longrightarrow> (\<forall>e. a \<noteq> Session_thread j e) \<Longrightarrow> (\<forall>d. a \<noteq> Session_exit j d) \<Longrightarrow>
    new_pos a v' j = Some k \<Longrightarrow> follows v i es v'' k"
| follow_own: "follows v i es v' j \<Longrightarrow> srv_act (Session_thread j e) v' v'' \<Longrightarrow> follows v i (es @ [e]) v'' j"

section \<open>Steps of others\<close>

lemma reap_pos_nth:
  "reap ts = Some ts' \<Longrightarrow> reap_pos ts j = Some k \<Longrightarrow> j < length ts \<Longrightarrow> k < length ts' \<and> ts' ! k = ts ! j"
  by (induction ts arbitrary: ts' j k) (auto split: if_splits nat.splits)

lemma other_step:
  assumes "srv_act a v v'" "\<forall>e. a \<noteq> Session_thread j e" "\<forall>d. a \<noteq> Session_exit j d" "new_pos a v j = Some k"
    "j < length (sessions v)" "srv_inv v"
  shows "k < length (sessions v') \<and> sessions v' ! k = sessions v ! j"
  using assms
proof (induction rule: srv_act.induct)
  case (act_recv v rx v')
  then show ?case using main_recv_cases [OF act_recv.hyps(2)] by (auto simp: new_pos_def nth_append)
next
  case (act_reap v v')
  then show ?case using reap_pos_nth by (auto simp: new_pos_def main_reap_def)
qed (auto simp: new_pos_def set_thread_def srv_stop_def)

section \<open>The file system matters in the first iteration only\<close>

lemma world_moves:
  "goto_state n (r\<lparr>world := fs\<rparr>) = (goto_state n r)\<lparr>world := fs\<rparr>" "timeout_reset e (r\<lparr>world := fs\<rparr>) = (timeout_reset e r)\<lparr>world := fs\<rparr>"
  "set_stage k (r\<lparr>world := fs\<rparr>) = (set_stage k r)\<lparr>world := fs\<rparr>" "inc_stage (r\<lparr>world := fs\<rparr>) = (inc_stage r)\<lparr>world := fs\<rparr>"
  "send_buf e (r\<lparr>world := fs\<rparr>) = (send_buf e r)\<lparr>world := fs\<rparr>"
  "poll_timeout e (r\<lparr>world := fs\<rparr>) = map_sum id (\<lambda>r'. r'\<lparr>world := fs\<rparr>) (poll_timeout e r)"
  by (simp_all add: goto_state_def timeout_reset_def set_stage_def inc_stage_def send_buf_def poll_timeout_def timeout_pass_def
      Let_def split: sum.split)

lemma world_moves_record:
  "r\<lparr>world := fs, sess := s\<rparr> = r\<lparr>sess := s, world := fs\<rparr>" "r\<lparr>world := fs, local_buf := b\<rparr> = r\<lparr>local_buf := b, world := fs\<rparr>"
  "r\<lparr>world := fs, last_blk_processed := l\<rparr> = r\<lparr>last_blk_processed := l, world := fs\<rparr>"
  "r\<lparr>world := fs, retr_count := c\<rparr> = r\<lparr>retr_count := c, world := fs\<rparr>"
  by simp_all

lemma run_step_world:
  assumes "stat (sess r) \<noteq> need_init"
  shows "run_step e (r\<lparr>world := fs\<rparr>) = map_sum id (\<lambda>r'. r'\<lparr>world := fs\<rparr>) (run_step e r)"
proof (cases "stat (sess r)")
  case error_and_stop
  then show ?thesis
    by (auto simp: run_step_def step_error_and_stop_def world_moves world_moves_record split: sum.split)
next
  case ack_options
  then show ?thesis
    by (auto simp: run_step_def step_ack_options_def Let_def world_moves world_moves_record split: sum.split srv_req.split)
next
  case data_tx
  then show ?thesis
    by (auto simp: run_step_def step_data_tx_def Let_def world_moves world_moves_record split: sum.split)
next
  case data_rx
  then show ?thesis
    by (auto simp: run_step_def step_data_rx_def Let_def world_moves world_moves_record split: sum.split triple_result.split)
next
  case ack_tx
  then show ?thesis
    by (auto simp: run_step_def step_ack_tx_def Let_def world_moves world_moves_record split: sum.split)
next
  case ack_rx
  then show ?thesis
    by (auto simp: run_step_def step_ack_rx_def Let_def world_moves world_moves_record split: sum.split triple_result.split)
next
  case retransmit
  then show ?thesis
    by (auto simp: run_step_def step_retransmit_def Let_def world_moves world_moves_record split: srv_req.split)
qed (use assms in \<open>simp_all add: run_step_def\<close>)

lemma leaves_need_init:
  assumes "run_inv r" "run_step e r = Inr r'"
  shows "stat (sess r') \<noteq> need_init"
proof (cases "stat (sess r) = need_init")
  case True
  obtain ret s fs where i: "sess_init e (world r) (sess r) = Inr (ret, s, fs)"
    using True assms(2) by (auto simp: run_step_def step_need_init_def split: sum.splits)
  then have "stat s = need_init"
    using sess_init_frame(1) [OF i run_invD(3) [OF assms(1)]] True by (simp add: same_session_def)
  then show ?thesis
    using True assms(2) i by (auto simp: run_step_def step_need_init_def Let_def goto_state_stat split: if_splits)
next
  case False
  then show ?thesis using run_step_ok [OF assms] by (cases "stat (sess r)") (auto simp: step_rel_def)
qed

section \<open>The followed session\<close>

lemma own_step:
  assumes "srv_act (Session_thread j e) v v'" "srv_inv v"
  obtains r where "\<not> is_finished (sess (t_run (sessions v ! j)))" "j < length (sessions v')"
    "run_step e ((t_run (sessions v ! j))\<lparr>world := shared_fs v\<rparr>) = Inr r" "t_run (sessions v' ! j) = r"
    "stat (sess r) \<noteq> need_init"
proof -
  obtain tf where 1: "v' = set_thread v j tf" "j < length (sessions v)" "\<not> is_finished (sess (t_run (sessions v ! j)))"
    "thread_iterate e (shared_fs v) (sessions v ! j) = Inr tf" using assms(1) by (rule srv_act_loopE)
  then have "thread_ok (shared_fs v) (sv_settings v) (sessions v ! j)" using assms(2) by (simp add: srv_inv_def)
  then have i: "run_inv ((t_run (sessions v ! j))\<lparr>world := shared_fs v\<rparr>)" by (simp add: thread_ok_def)
  obtain r where r: "run_step e ((t_run (sessions v ! j))\<lparr>world := shared_fs v\<rparr>) = Inr r" "tf = ((sessions v ! j)\<lparr>t_run := r\<rparr>, world r)"
    using 1(4) by (auto simp: thread_iterate_def split: sum.splits)
  show ?thesis
    by (rule that [OF _ _ r(1)]) (use 1 r(2) leaves_need_init [OF i r(1)] in \<open>simp_all add: set_thread_def\<close>)
qed

lemma follows_idle:
  assumes "follows v i es v' j" "es = []" "srv_inv v" "i < length (sessions v)"
  shows "srv_inv v' \<and> j < length (sessions v') \<and> sessions v' ! j = sessions v ! i"
  using assms
proof (induction rule: follows.induct)
  case (follow_other es v' j a v'' k)
  then have i: "srv_inv v'" "j < length (sessions v')" by auto
  have "srv_inv v''" using srv_inv_step [OF _ i(1)] follow_other.hyps(2) by (auto simp: srv_step_act)
  then show ?case using other_step [OF follow_other.hyps(2-5) i(2,1)] follow_other by simp
qed simp_all

lemma follows_run:
  assumes "follows v i es v' j" "srv_inv v" "i < length (sessions v)" "stat (sess (t_run (sessions v ! i))) \<noteq> need_init"
  shows "srv_inv v' \<and> j < length (sessions v') \<and> stat (sess (t_run (sessions v' ! j))) \<noteq> need_init \<and>
    (\<exists>r. run_loop es (t_run (sessions v ! i)) = Inr r \<and> t_run (sessions v' ! j) = r\<lparr>world := world (t_run (sessions v' ! j))\<rparr>)"
  using assms
proof (induction rule: follows.induct)
  case (follow_other es v' j a v'' k)
  then have i: "srv_inv v'" "j < length (sessions v')" by auto
  have "srv_inv v''" using srv_inv_step [OF _ i(1)] follow_other.hyps(2) by (auto simp: srv_step_act)
  moreover have o: "k < length (sessions v'')" "sessions v'' ! k = sessions v' ! j"
    using other_step [OF follow_other.hyps(2-5) i(2,1)] by auto
  ultimately show ?case unfolding o(2) using follow_other.IH follow_other.prems o(1) by blast
next
  case (follow_own es v' j e v'')
  then obtain r where r: "srv_inv v'" "run_loop es (t_run (sessions v ! i)) = Inr r"
    "t_run (sessions v' ! j) = r\<lparr>world := world (t_run (sessions v' ! j))\<rparr>" "stat (sess (t_run (sessions v' ! j))) \<noteq> need_init"
    by blast
  have i': "srv_inv v''" using srv_inv_step [OF _ r(1)] follow_own.hyps(2) by (auto simp: srv_step_act)
  obtain q where q: "\<not> is_finished (sess (t_run (sessions v' ! j)))" "j < length (sessions v'')"
    "run_step e ((t_run (sessions v' ! j))\<lparr>world := shared_fs v'\<rparr>) = Inr q" "t_run (sessions v'' ! j) = q" "stat (sess q) \<noteq> need_init"
    using own_step [OF follow_own.hyps(2) r(1)] by blast
  have eq: "sess (t_run (sessions v' ! j)) = sess r" by (subst r(3)) simp
  have "(t_run (sessions v' ! j))\<lparr>world := shared_fs v'\<rparr> = r\<lparr>world := shared_fs v'\<rparr>" by (subst r(3)) simp
  then obtain r1 where r1: "run_step e r = Inr r1" "q = r1\<lparr>world := shared_fs v'\<rparr>"
    using q(3) r(4) run_step_world [of r e] eq by (cases "run_step e r") auto
  have "run_loop (es @ [e]) (t_run (sessions v ! i)) = Inr r1"
    using r(2) r1(1) q(1) eq by (simp add: run_loop_append)
  then show ?case using r1(2) q i' by auto
qed simp

lemma session_alone:
  assumes "srv_inv v" "i < length (sessions v)" "t_run (sessions v ! i) = run_start fs0 s" "follows v i [] v1 k"
    "srv_act (Session_thread k e) v1 v2" "follows v2 k es v' j"
  shows "\<exists>r. run_loop (e # es) (run_start (shared_fs v1) s) = Inr r \<and>
    t_run (sessions v' ! j) = r\<lparr>world := world (t_run (sessions v' ! j))\<rparr>"
proof -
  have v1: "srv_inv v1" "t_run (sessions v1 ! k) = run_start fs0 s"
    using follows_idle [OF assms(4) refl assms(1,2)] assms(3) by auto
  have v2: "srv_inv v2" using srv_inv_step [OF _ v1(1)] assms(5) by (auto simp: srv_step_act)
  obtain q where q: "\<not> is_finished (sess (t_run (sessions v1 ! k)))" "k < length (sessions v2)"
    "run_step e ((t_run (sessions v1 ! k))\<lparr>world := shared_fs v1\<rparr>) = Inr q" "t_run (sessions v2 ! k) = q" "stat (sess q) \<noteq> need_init"
    using own_step [OF assms(5) v1(1)] by blast
  have st: "run_step e (run_start (shared_fs v1) s) = Inr q" "\<not> is_finished (sess (run_start (shared_fs v1) s))"
    using q(1,3) v1(2) by (simp_all add: run_start_def)
  show ?thesis
    unfolding run_loop_1 [OF st(2,1)] using follows_run [OF assms(6) v2 q(2)] q(4,5) by simp
qed

text \<open>A session that can go on may be the next to act.\<close>

lemma act_step:
  assumes "j < length (sessions v)" "\<not> is_finished (sess (t_run (sessions v ! j)))"
    "run_step e ((t_run (sessions v ! j))\<lparr>world := shared_fs v\<rparr>) = Inr q"
  obtains v' where "srv_act (Session_thread j e) v v'" "j < length (sessions v')" "t_run (sessions v' ! j) = q" "shared_fs v' = world q"
    "t_ended (sessions v' ! j) = t_ended (sessions v ! j)"
proof -
  have "thread_iterate e (shared_fs v) (sessions v ! j) = Inr ((sessions v ! j)\<lparr>t_run := q\<rparr>, world q)"
    using assms(3) by (simp add: thread_iterate_def)
  from act_loop [OF assms(1,2) this] show ?thesis
    by (rule that) (use assms(1) in \<open>simp_all add: set_thread_def\<close>)
qed

lemma follow_step:
  assumes "follows v i es v' j" "j < length (sessions v')" "\<not> is_finished (sess (t_run (sessions v' ! j)))"
    "run_step e ((t_run (sessions v' ! j))\<lparr>world := shared_fs v'\<rparr>) = Inr q"
  obtains v'' where "follows v i (es @ [e]) v'' j" "j < length (sessions v'')" "t_run (sessions v'' ! j) = q" "shared_fs v'' = world q"
    "t_ended (sessions v'' ! j) = t_ended (sessions v' ! j)"
  using act_step [OF assms(2-4)] follow_own [OF assms(1)] that by metis

text \<open>A run of a session alone that does not finish is a run of the server in which nobody else acts.\<close>

lemma follow_alone:
  assumes "run_loop es (t_run (sessions v ! j)) = Inr q" "\<not> is_finished (sess q)" "j < length (sessions v)"
    "shared_fs v = world (t_run (sessions v ! j))"
  shows "\<exists>v'. follows v j es v' j \<and> j < length (sessions v') \<and> t_run (sessions v' ! j) = q \<and> shared_fs v' = world q \<and>
    t_ended (sessions v' ! j) = t_ended (sessions v ! j)"
  using assms
proof (induction es arbitrary: q rule: rev_induct)
  case Nil
  then show ?case using follow_start [of v j] by auto
next
  case (snoc e es)
  obtain q1 where q1: "run_loop es (t_run (sessions v ! j)) = Inr q1" "run_loop [e] q1 = Inr q"
    using snoc.prems(1) by (auto simp: run_loop_append split: sum.splits)
  then have st: "\<not> is_finished (sess q1)" "run_step e q1 = Inr q" using snoc.prems(2) by (auto split: if_splits sum.splits)
  obtain v1 where v1: "follows v j es v1 j" "j < length (sessions v1)" "t_run (sessions v1 ! j) = q1" "shared_fs v1 = world q1"
    "t_ended (sessions v1 ! j) = t_ended (sessions v ! j)"
    using snoc.IH [OF q1(1) st(1) snoc.prems(3,4)] by blast
  have "run_step e ((t_run (sessions v1 ! j))\<lparr>world := shared_fs v1\<rparr>) = Inr q" using v1(3,4) st(2) by simp
  then show ?case using follow_step [OF v1(1,2)] v1(3,5) st(1) by metis
qed


text \<open>The example server after a request, and with a download just started.\<close>

lemma demo_requested:
  assumes "pkt = request_bytes c nm ''octet'' ps" "c = 1 \<or> c = 2" "text_ok nm" "pairs_ok ps" "9 \<le> length pkt" "length pkt \<le> 0xFFFF"
    "apply_options (options_new\<lparr>o_request_type := (if c = 1 then srv_read else srv_write),
      o_filename := nm, o_transfer_mode := mode_of (do_lower ''octet'')\<rparr>) ps = Inr o'"
  shows "\<exists>v s b n. main_recv (Rx_pkt pkt (a_bytes demo_client)) demo_server = Inr v \<and>
     srv_reach (main_enter 3 0 (srv_new demo_sett demo_read_fs)) v \<and>
     sessions v = [\<lparr>t_run = run_start demo_read_fs s, t_ended = False\<rparr>] \<and> shared_fs v = demo_read_fs \<and>
     opts s = o' \<and> client_addr v = cl_addr s \<and>
     prepare (session_new demo_sett) (cl_addr s) b n = Inr (True, s) \<and> a_bytes (cl_addr s) = a_bytes demo_client"
proof -
  have c: "length (a_bytes demo_client) = 30" "put_at (a_bytes addr_new) 0 (a_bytes demo_client) = a_bytes demo_client"
    by code_simp+
  have a: "client_addr demo_server = addr_new" by (simp add: demo_server_def main_enter_def srv_new_def)
  have st: "sv_settings demo_server = demo_sett" using srv_start_settings by (simp add: demo_server_def)
  obtain v s b n where v: "main_recv (Rx_pkt pkt (a_bytes demo_client)) demo_server = Inr v"
    "sessions v = sessions demo_server @ [\<lparr>t_run = run_start (shared_fs demo_server) s, t_ended = False\<rparr>]"
    "opts s = o'" "client_addr v = cl_addr s"
    "prepare (session_new (sv_settings demo_server)) (cl_addr s) b n = Inr (True, s)"
    "a_bytes (cl_addr s) = put_at (a_bytes (client_addr demo_server)) 0 (a_bytes demo_client)"
    using request_session [OF demo_server_ok(1,2) assms(1-3) demo_texts(2) assms(4-6) _ assms(7), of "a_bytes demo_client"] c(1) by auto
  have "shared_fs v = demo_read_fs" using main_recv_cases [OF v(1) demo_server_ok(1)] demo_server_ok(5) by simp
  moreover have "srv_reach demo_server v" using srv_next [OF srv_refl recv [OF demo_server_ok(4) v(1)]] .
  ultimately show ?thesis
    using v c(2) a st demo_server_ok(3,5) unfolding demo_server_def [symmetric] by auto
qed

lemma demo_started:
  "\<exists>v s b n. main_recv (Rx_pkt (request_bytes 1 ''fw.bin'' ''octet'' []) (a_bytes demo_client)) demo_server = Inr v \<and>
     srv_reach (main_enter 3 0 (srv_new demo_sett demo_read_fs)) v \<and>
     sessions v = [\<lparr>t_run = run_start demo_read_fs s, t_ended = False\<rparr>] \<and> shared_fs v = demo_read_fs \<and>
     opts s = opts (demo_prepared (demo_request [])) \<and> client_addr v = cl_addr s \<and>
     prepare (session_new demo_sett) (cl_addr s) b n = Inr (True, s) \<and> a_bytes (cl_addr s) = a_bytes demo_client"
proof -
  have o: "apply_options (options_new\<lparr>o_request_type := (if (1 :: nat) = 1 then srv_read else srv_write),
      o_filename := ''fw.bin'', o_transfer_mode := mode_of (do_lower ''octet'')\<rparr>) [] = Inr (opts (demo_prepared (demo_request [])))"
    unfolding demo_plain_opts by code_simp
  show ?thesis by (rule demo_requested [OF refl _ demo_texts(1,3) _ _ o]) (use demo_texts(5) in simp_all)
qed

text \<open>The example download, from its first iteration to its end.\<close>

lemma demo_followed:
  assumes "sessions v = [\<lparr>t_run = run_start demo_read_fs s, t_ended = False\<rparr>]" "shared_fs v = demo_read_fs"
    "opts s = opts (demo_prepared (demo_request []))" "prepare (session_new demo_sett) (cl_addr s) b n = Inr (True, s)"
    "a_bytes (cl_addr s) = a_bytes demo_client"
  shows "\<exists>v2 v'. srv_act (Session_thread 0 (quiet 0)) v v2 \<and>
    follows v2 0 [quiet 1, quiet 2, from_client 3 (ack_pkt 1)] v' 0"
proof -
  have o: "o_request_type (opts s) = srv_read" "o_filename (opts s) = ''fw.bin''" "windowsize_opt (opts s) \<le> 1"
    "blksize (opts s) = 512" "timeout (opts s) = 10" "\<not> was_set_any (opts s)"
    by (simp_all add: assms(3) demo_plain_opts opt_eval)
  obtain d where d: "dm_init demo_read_fs demo_sett dmf_new (opts s) = Inr (True, None, d, demo_read_fs)" "dm_ready d"
    "dm_source d = ''abc''" "\<not> os_opened (file_out d)" "request_type d = srv_read"
    using dm_init_found [OF o(1) _ demo_file(2,3), of demo_sett] demo_file(1) o(2) by auto
  have q: "0 \<le> e_socket (quiet 0)" "e_bind (quiet 0) \<noteq> - 1" by (simp_all add: quiet_def)
  obtain r0 where r0: "run_step (quiet 0) (run_start demo_read_fs s) = Inr r0" "run_inv r0" "stat (sess r0) = ack_options"
    "\<not> was_error (sess r0)" "opts (sess r0) = opts s" "block_size (sess r0) = block_size s" "windowsize (sess r0) = windowsize s"
    "cl_addr (sess r0) = cl_addr s" "file_man (sess r0) = Some d" "world r0 = demo_read_fs" "\<not> last_blk_processed r0"
    "\<not> is_finished (sess (run_start demo_read_fs s))"
    by (rule session_begins [OF what_ok_demo assms(4) q d(1)])
  have bs: "unat (block_size s) = 512" "windowsize s = 1" using o(3,4) by (simp_all add: block_size_def windowsize_def)
  have dn0: "down ''abc'' r0" using r0 bs o(5) by (simp add: down_def)
  have sr0: "has_source ''abc'' True r0" using d r0(9) by (simp add: has_source_def)
  obtain r1 where r1: "run_loop [quiet 1] r0 = Inr r1" "down ''abc'' r1" "has_source ''abc'' True r1" "stat (sess r1) = data_tx"
    "stage (sess r1) = 1" "world r1 = demo_read_fs"
    using loop_opened [OF dn0 sr0 r0(3) _ r0(11), of "[quiet 1]"] r0(5,10) o(1,6) by (auto simp: opened_def)
  have s1: "run_step (quiet 1) r0 = Inr r1" using r1(1) r0(3) by (auto simp: is_finished_def split: sum.splits)
  have k1: "opts (sess r1) = opts s" "cl_addr (sess r1) = cl_addr s" using run_step_ok [OF r0(2) s1] r0(5,8) by (auto simp: step_rel_def)
  have lb: "last_block 512 ''abc'' = 1" by code_simp
  obtain r2 where r2: "run_step (quiet 2) r1 = Inr r2" "down ''abc'' r2" "stat (sess r2) = ack_rx" "stage (sess r2) = 1" "world r2 = demo_read_fs"
    using step_send_block [OF r1(2-4) refl, of 512 "quiet 2"] r1(5,6) lb bs(1) block_size_opts [OF k1(1)] by auto
  have k2: "cl_addr (sess r2) = cl_addr s"
    using run_step_ok [OF _ r2(1)] r1(2) k1(2) by (auto simp: step_rel_def down_def)
  have g: "gives (cl_addr (sess r2)) (ack_pkt (of_nat (stage (sess r2)))) (from_client 3 (ack_pkt 1))"
    using r2(4) k2 assms(5) by (simp add: gives_def from_client_def demo_client_rx)
  obtain r3 where r3: "run_step (from_client 3 (ack_pkt 1)) r2 = Inr r3"
    using step_take_ack [OF _ r2(3) _ g] run_invD(1) r2(2,4) by (auto simp: down_def)
  have w: "r0\<lparr>world := demo_read_fs\<rparr> = r0" "r2\<lparr>world := demo_read_fs\<rparr> = r2" using r0(10) r2(5) by simp_all
  have l: "run_loop [quiet 1, quiet 2] r0 = Inr r2" "\<not> is_finished (sess r2)"
    using s1 r2(1,3) r0(3) r1(4) by (simp_all add: is_finished_def)
  obtain v2 where v2: "srv_act (Session_thread 0 (quiet 0)) v v2" "0 < length (sessions v2)" "t_run (sessions v2 ! 0) = r0" "shared_fs v2 = demo_read_fs"
    using act_step [of 0 v "quiet 0" r0] assms(1,2) r0(1,10,12) by (auto simp: run_start_def)
  obtain v3 where v3: "follows v2 0 [quiet 1, quiet 2] v3 0" "0 < length (sessions v3)" "t_run (sessions v3 ! 0) = r2" "shared_fs v3 = demo_read_fs"
    using follow_alone [of "[quiet 1, quiet 2]" v2 0 r2] l v2(2-4) r0(10) r2(5) by auto
  obtain v4 where "follows v2 0 ([quiet 1, quiet 2] @ [from_client 3 (ack_pkt 1)]) v4 0"
    using follow_step [OF v3(1,2), of "from_client 3 (ack_pkt 1)" r3] v3(3,4) w(2) r3 l(2) by auto
  then show ?thesis using v2(1) by auto
qed


end
