(* ===== verification/Spec2Isabelle.thy ===== *)
theory Spec2Isabelle
  imports MainApp UploadStore Defects Isolation
begin

text \<open>
  A model of the TFTP firmware server \<open>server-fw\<close> (the sources under \<open>src/source\<close>) and the theorems
  about it.

  \<^bold>\<open>The program.\<close> \<open>server-fw.cpp\<close> reads the command line into a \<open>Settings\<close> object, optionally forks a
  daemon, and runs a \<open>Srv\<close>. \<open>Srv\<close> opens one UDP socket and loops: it receives a request, lets a
  new \<open>Session\<close> parse it (class \<open>Options\<close>), and runs that session in a thread of its own; finished
  sessions are joined and removed. A \<open>Session\<close> opens its own socket and a data manager
  (\<open>DataMgr\<close>, implemented by \<open>DataMgrFile\<close>), and runs a state machine over the states of
  \<open>enum class State\<close> until the transfer is finished: it polls its socket, builds packets in a
  \<open>SmBufEx\<close> and reads or writes blocks of the file through the manager. \<open>Addr\<close> is the address of a
  socket, \<open>Base\<close> gives the classes locked access to the shared settings, \<open>SmBuf\<close> is a byte vector with
  typed access.

  \<^bold>\<open>How it is modelled.\<close> A class is a record with the fields of the class, an enumeration a datatype with its
  constructors, a member function a function that takes and returns the record. An exception, and an
  access the C++ standard leaves undefined, is the left value of a result of type \<open>'a res\<close>. A
  \<open>size_t\<close> is a natural number below \<open>2 ^ 64\<close> whose arithmetic wraps around explicitly
  (\<open>sz_add\<close>, \<open>sz_sub\<close>, \<open>sz_mul\<close>), a \<open>uint16_t\<close> is a 16-bit word, an \<open>int\<close> is an
  integer with its overflow written out where the code can reach it. What the system returns is an
  argument: the results of \<open>socket\<close>, \<open>bind\<close>, \<open>recvfrom\<close>, \<open>sendto\<close> and \<open>time\<close> for an
  iteration of a session are a record \<open>env\<close>, the file system is a record \<open>filesys\<close>, \<open>inet_pton\<close> and
  \<open>inet_ntop\<close> are functions. The standard library is modelled as far as it is used: file streams with
  their state bits and exception masks, \<open>std::regex\<close> search, \<open>stoi\<close> and \<open>stoul\<close>,
  \<open>std::filesystem\<close> paths.

  \<^bold>\<open>Theories and sources.\<close>

  \<^item> \<open>Prelude\<close>: types, 64-bit arithmetic, lists. \<open>Simulation\<close>: labelled runs and forward simulation.

  \<^item> \<open>SmBuf\<close>, \<open>SmBufEx\<close>: \<open>tftpSmBuf\<close>, \<open>tftpSmBufEx\<close>. Reading back what was written
  (\<open>be16_roundtrip\<close>, \<open>string_roundtrip\<close>); \<open>push_data\<close> appends exactly its arguments and never leaves
  the buffer (\<open>push_data_appends\<close>, \<open>push_data_safe\<close>).

  \<^item> \<open>Common\<close>: \<open>tftpCommon\<close>, enumerations and text helpers.

  \<^item> \<open>Options\<close>: \<open>tftpOptions\<close>, the parser of requests. It inverts the format of the RFCs
  (\<open>buffer_parse_request\<close>), stays inside a terminated packet (\<open>buffer_parse_safe\<close>) and leaves one that
  is not (\<open>unterminated_name_undefined\<close>).

  \<^item> \<open>Regex\<close>, \<open>Addr\<close>: the regular expressions the program uses, and \<open>tftpAddr\<close>. An IPv4 address survives
  printing and parsing (\<open>addr_text_roundtrip\<close>).

  \<^item> \<open>Settings\<close>, \<open>Base\<close>: \<open>tftpSettings\<close>, \<open>tftpBase\<close>. The command line (\<open>load_options_sound\<close>,
  \<open>load_options_throws_iff\<close>), the getters, and the read-write lock as a step relation
  (\<open>lock_exclusion\<close>).

  \<^item> \<open>FileStream\<close>, \<open>DataMgr\<close>, \<open>DataMgrFile\<close>: file streams, \<open>tftpDataMgr\<close>, \<open>tftpDataMgrFile\<close>. The contracts
  of \<open>read\<close> and \<open>write\<close> are the locales \<open>block_source\<close> and \<open>block_sink\<close>, interpreted on the file
  manager; the search for a file by name and by md5 sum, opening and closing have functional
  descriptions.

  \<^item> \<open>Session\<close>: \<open>tftpSession\<close>. \<open>run_step\<close> is one iteration of the loop of \<open>Session::run\<close>, with one
  definition for each branch of its switch; \<open>run_loop\<close> iterates it over a list of inputs, \<open>run\<close> adds the
  begin and the end.

  \<^item> \<open>SessionInv\<close>: what holds in every state a session can reach, for every input: the packets the
  constructors build, the invariant, the transitions, the bound on retransmissions, and that a
  download does not throw.

  \<^item> \<open>Traffic\<close>, \<open>Download\<close>, \<open>Upload\<close>: whole transfers with a client that follows the protocol, between other
  packets and pauses: \<open>download_complete\<close>, \<open>upload_complete\<close>.

  \<^item> \<open>ReadSafety\<close>, \<open>UploadStore\<close>: transfers with any client and any network. \<open>sent_blocks_correct\<close>: what a
  download sends. \<open>upload_refines_store\<close>: the loop of an upload refines an abstract store of blocks,
  by interpretation of the locale \<open>simulation\<close>. \<open>upload_throws_iff\<close>: the one packet that makes an upload
  throw.

  \<^item> \<open>Silence\<close>: a session whose client is silent ends.

  \<^item> \<open>Defects\<close>: behaviour of the session that its author cannot have meant, each as a theorem over every
  state in which it happens.

  \<^item> \<open>Srv\<close>: \<open>tftpSrv\<close>, the server with all its threads as one step relation; \<open>server_invariant\<close> holds for
  every interleaving.

  \<^item> \<open>Isolation\<close>: one session followed through the steps of the server. Its state is that of a session
  alone with the same inputs (\<open>session_isolated\<close>).

  \<^item> \<open>MainApp\<close>: \<open>server-fw.cpp\<close>, with the exit codes.

  \<^item> This theory: the path from a request through the server to the last block of the file
  (\<open>server_delivers_file\<close>) or to the stored file (\<open>server_stores_file\<close>), which composes the parser, the
  server, the isolation of its sessions and the download or upload.

  \<^bold>\<open>Bounds.\<close> \<open>run_loop\<close> takes the list of the inputs of its iterations, and \<open>run\<close> returns \<open>None\<close> if the
  session has not finished with them: that a session ends is stated as the existence of such a list
  prefix (\<open>silent_client_ends\<close>) or for given inputs (\<open>download_complete\<close>, \<open>upload_complete\<close>), never
  assumed. Files are shorter than \<open>2 ^ 61\<close> bytes and runs shorter than \<open>2 ^ 44\<close> iterations where a theorem
  speaks of positions, so that no position leaves the range of a signed 64-bit offset. Theorems about
  transfers assume a block size of at most 65531, which fits the buffer of a session, and a timeout
  below the largest \<open>int\<close>; beyond them the model has the undefined result the code has. The search of a
  regular expression and the parser of options recurse on the length of their input.

  \<^bold>\<open>Not modelled.\<close> The texts of log messages, which only go to the logger (an exception that building
  one can throw is in the model); the memory order of the flags threads share (their steps interleave
  atomically); the contents of the Firebird settings, which the program stores and does not use; the
  template traits of \<open>tftpCommon.h\<close> that select overloads (each selected overload is a definition); the
  declarations of the header files, which repeat the definitions; destructors, which are empty.
\<close>

section \<open>From the request to the file\<close>

lemma apply_options_kept:
  "apply_options opt ps = Inr opt' \<Longrightarrow> o_filename opt' = o_filename opt \<and> o_request_type opt' = o_request_type opt"
  by (induction opt ps rule: apply_options.induct) (auto simp: set_option_def split: sum.splits if_splits)

text \<open>The session a request starts, followed from its first iteration in state \<open>v1\<close>, is a session alone.\<close>

lemma request_followed:
  assumes "what_ok fs" "srv_reach (main_enter x y (srv_new st fs)) v" "\<not> sv_stop v"
    "pkt = request_bytes c fname mode ps" "c = 1 \<or> c = 2" "text_ok fname" "text_ok mode" "pairs_ok ps" "9 \<le> length pkt" "length pkt \<le> 0xFFFF"
    "length fr \<le> max_sockaddr_size"
    "apply_options (options_new\<lparr>o_request_type := (if c = 1 then srv_read else srv_write), o_filename := fname,
       o_transfer_mode := mode_of (do_lower mode)\<rparr>) ps = Inr o'"
    "main_recv (Rx_pkt pkt fr) v = Inr v0" "follows v0 (length (sessions v)) [] v1 k" "srv_act (Session_thread k e0) v1 v2"
    "follows v2 k es v' j"
  obtains s b n r where "prepare (session_new st) (client_addr v0) b n = Inr (True, s)" "opts s = o'"
    "o_request_type o' = (if c = 1 then srv_read else srv_write)" "o_filename o' = fname" "what_ok (shared_fs v1)"
    "run_loop (e0 # es) (run_start (shared_fs v1) s) = Inr r"
    "t_run (sessions v' ! j) = r\<lparr>world := world (t_run (sessions v' ! j))\<rparr>"
proof -
  have i: "srv_inv v" "sv_settings v = st"
    using srv_inv_reach [OF assms(2) srv_start_inv [OF assms(1)]] srv_start_settings by auto
  obtain s b n where s: "sessions v0 = sessions v @ [\<lparr>t_run = run_start (shared_fs v) s, t_ended = False\<rparr>]" "opts s = o'"
    "client_addr v0 = cl_addr s" "prepare (session_new st) (cl_addr s) b n = Inr (True, s)"
    using request_session [OF i(1) assms(3-12)] assms(13) i(2) by auto
  have i0: "srv_inv v0" using main_recv_cases [OF assms(13) i(1)] by simp
  have n0: "length (sessions v) < length (sessions v0)" "t_run (sessions v0 ! length (sessions v)) = run_start (shared_fs v) s"
    using s(1) by simp_all
  have w1: "what_ok (shared_fs v1)" using follows_idle [OF assms(14) refl i0 n0(1)] by (simp add: srv_inv_def)
  obtain r where r: "run_loop (e0 # es) (run_start (shared_fs v1) s) = Inr r"
    "t_run (sessions v' ! j) = r\<lparr>world := world (t_run (sessions v' ! j))\<rparr>"
    using session_alone [OF i0 n0 assms(14-16)] by blast
  show ?thesis
    by (rule that [OF _ s(2) _ _ w1 r]) (use apply_options_kept [OF assms(12)] s(3,4) in simp_all)
qed

definition file_there :: "filesys \<Rightarrow> settings \<Rightarrow> string \<Rightarrow> path \<Rightarrow> byte list \<Rightarrow> bool" where
  "file_there fs st nm p fl \<longleftrightarrow> find_for_read fs st nm = Inr (Some p) \<and> fs_open_in fs p = Some fl \<and>
     fs_stat fs p = Inr (Some (Reg fl))"

text \<open>
  C1. A request in, the file out. The server, in any state it can reach, receives a read request. The
  session it starts makes its first iteration in some later state \<open>v1\<close>, in which the requested file is
  there with content \<open>fl\<close>, and goes on in between whatever the main thread and other sessions do. If
  the socket of the session can be opened, the window is one block and its client acknowledges every
  packet in time, the session finishes without error and has sent the option reply, if options were
  requested, and the DATA packets of all blocks in order, which are together the file.
\<close>

theorem server_delivers_file:
  assumes "what_ok fs" "srv_reach (main_enter x y (srv_new st fs)) v" "\<not> sv_stop v"
    "pkt = request_bytes 1 fname mode ps" "text_ok fname" "text_ok mode" "pairs_ok ps" "9 \<le> length pkt" "length pkt \<le> 0xFFFF"
    "length fr \<le> max_sockaddr_size"
    "apply_options (options_new\<lparr>o_request_type := srv_read, o_filename := fname, o_transfer_mode := mode_of (do_lower mode)\<rparr>) ps = Inr o'"
    "main_recv (Rx_pkt pkt fr) v = Inr v0" "follows v0 (length (sessions v)) [] v1 k" "file_there (shared_fs v1) st fname p fl"
    "length fl < 2 ^ 61" "windowsize_opt o' \<le> 1" "bs = unat (word_of_int (blksize o') :: u16)" "0 < bs" "bs \<le> 65531"
    "timeout o' < 2 ^ 31 - 1" "0 \<le> e_socket e0" "e_bind e0 \<noteq> - 1" "srv_act (Session_thread k e0) v1 v2"
    "opened o' (client_addr v0) (timeout o') es0" "served (client_addr v0) (timeout o') 1 (last_block bs fl) es"
    "follows v2 k (es0 @ es) v' j"
  shows "is_finished (sess (t_run (sessions v' ! j))) \<and> \<not> was_error (sess (t_run (sessions v' ! j))) \<and>
    sent (t_run (sessions v' ! j)) = (if was_set_any o' then [oack_pkt o'] else []) @
      map (\<lambda>k. data_pkt (of_nat k) (block bs fl k)) [1..<Suc (last_block bs fl)] \<and>
    concat (map (block bs fl) [1..<Suc (last_block bs fl)]) = fl"
proof -
  obtain s b n r where s: "prepare (session_new st) (client_addr v0) b n = Inr (True, s)" "opts s = o'"
    "o_request_type o' = (if (1 :: nat) = 1 then srv_read else srv_write)" "o_filename o' = fname" "what_ok (shared_fs v1)"
    and l: "run_loop (e0 # es0 @ es) (run_start (shared_fs v1) s) = Inr r"
    and e: "t_run (sessions v' ! j) = r\<lparr>world := world (t_run (sessions v' ! j))\<rparr>" (is "?t = _")
    by (rule request_followed [OF assms(1-4) _ assms(5-10) _ assms(12,13,23,26)]) (use assms(11) in simp_all)
  have k: "o_request_type (opts s) = srv_read" using s(2,3) by simp
  have f: "find_for_read (shared_fs v1) st (o_filename (opts s)) = Inr (Some p)" "fs_open_in (shared_fs v1) p = Some fl"
    "fs_stat (shared_fs v1) p = Inr (Some (Reg fl))" using assms(14) s(2,4) by (simp_all add: file_there_def)
  have b: "windowsize s = 1" "bs = unat (block_size s)" using assms(16,17) s(2) by (simp_all add: windowsize_def block_size_def)
  obtain q where q: "run_loop (e0 # es0 @ es) (run_start (shared_fs v1) s) = Inr q" "is_finished (sess q)" "\<not> was_error (sess q)"
    "sent q = (if was_set_any (opts s) then [oack_pkt (opts s)] else []) @
       map (\<lambda>k. data_pkt (of_nat k) (block bs fl k)) [1..<Suc (last_block bs fl)]"
    by (rule download_loop [OF s(5,1) k f assms(15) b assms(18,19) _ assms(21,22)]) (use assms(20,24,25) s(2) in simp_all)
  have "q = r" using q(1) l by simp
  moreover have "sess ?t = sess r" "sent ?t = sent r" by (subst e, simp)+
  ultimately show ?thesis using q(2-4) s(2) concat_blocks [OF assms(18), of fl] by (simp del: upt_Suc)
qed

text \<open>The example: nobody else acts, and the one block is acknowledged at once.\<close>

theorem server_delivers_file_witness:
  "\<exists>v' :: srv. is_finished (sess (t_run (sessions v' ! 0))) \<and> sent (t_run (sessions v' ! 0)) = [data_pkt 1 ''abc'']"
proof -
  let ?o = "opts (demo_prepared (demo_request []))" and ?p = "request_bytes 1 ''fw.bin'' ''octet'' []"
  obtain v s b n where v: "main_recv (Rx_pkt ?p (a_bytes demo_client)) demo_server = Inr v"
    "sessions v = [\<lparr>t_run = run_start demo_read_fs s, t_ended = False\<rparr>]" "shared_fs v = demo_read_fs"
    "opts s = ?o" "prepare (session_new demo_sett) (cl_addr s) b n = Inr (True, s)"
    "a_bytes (cl_addr s) = a_bytes demo_client" "client_addr v = cl_addr s" using demo_started by blast
  obtain v2 v' where f: "srv_act (Session_thread 0 (quiet 0)) v v2" "follows v2 0 ([quiet 1] @ [quiet 2, from_client 3 (ack_pkt 1)]) v' 0"
    using demo_followed [OF v(2-6)] by auto
  have o: "windowsize_opt ?o \<le> 1" "512 = unat (word_of_int (blksize ?o) :: u16)" "timeout ?o < 2 ^ 31 - 1" "timeout ?o = 10"
    "\<not> was_set_any ?o" by (simp_all add: demo_plain_opts opt_eval)
  have l: "length (a_bytes demo_client) \<le> 30" "last_block 512 ''abc'' = 1" "block 512 ''abc'' 1 = ''abc''" by code_simp+
  have ao: "apply_options (options_new\<lparr>o_request_type := srv_read, o_filename := ''fw.bin'', o_transfer_mode := mode_of (do_lower ''octet'')\<rparr>) [] = Inr ?o"
    unfolding demo_plain_opts by code_simp
  have th: "file_there (shared_fs v) demo_sett ''fw.bin'' ''/r/fw.bin'' ''abc''" using v(3) demo_file by (simp add: file_there_def)
  have st: "follows v (length (sessions demo_server)) [] v 0" using follow_start [of v 0] demo_server_ok(3) by simp
  have op: "opened ?o (client_addr v) (timeout ?o) [quiet 1]" using o(5) by (simp add: opened_def)
  have sv: "served (client_addr v) (timeout ?o) 1 (last_block 512 ''abc'') [quiet 2, from_client 3 (ack_pkt 1)]"
    unfolding l(2) o(4) by (rule served_last) (use v(6,7) in \<open>simp add: answered_def waits_def gives_def from_client_def demo_client_rx\<close>)
  have n: "9 \<le> length ?p" "length ?p \<le> 0xFFFF" "length ''abc'' < 2 ^ 61" "0 < (512 :: nat)" "(512 :: nat) \<le> 65531"
    "0 \<le> e_socket (quiet 0)" "e_bind (quiet 0) \<noteq> - 1" using demo_texts(5) by (simp_all add: quiet_def)
  have r: "srv_reach (main_enter 3 0 (srv_new demo_sett demo_read_fs)) demo_server" unfolding demo_server_def by (rule srv_refl)
  show ?thesis
    using server_delivers_file [OF what_ok_demo r demo_server_ok(2) refl demo_texts(1-3) n(1,2) l(1) ao v(1) st th n(3) o(1,2)
        n(4,5) o(3) n(6,7) f(1) op sv f(2)] o(5) l(2,3) by auto
qed

text \<open>
  C2. A request in, the file stored. The server, in any state it can reach, receives a write request.
  The session it starts makes its first iteration in some later state \<open>v1\<close>, in which nothing exists at
  the path of the request and a file can be created there, and goes on in between whatever the main
  thread and other sessions do. If its socket can be opened, the window is one block and its client
  sends the blocks of \<open>fl\<close> in time, the session finishes without error after it has acknowledged every
  block; when its thread then ends, that step changes the file system of the server exactly by the
  file with content \<open>fl\<close>.
\<close>

theorem server_stores_file:
  assumes "what_ok fs" "srv_reach (main_enter x y (srv_new st fs)) v" "\<not> sv_stop v"
    "pkt = request_bytes 2 fname mode ps" "text_ok fname" "text_ok mode" "pairs_ok ps" "9 \<le> length pkt" "length pkt \<le> 0xFFFF"
    "length fr \<le> max_sockaddr_size"
    "apply_options (options_new\<lparr>o_request_type := srv_write, o_filename := fname, o_transfer_mode := mode_of (do_lower mode)\<rparr>) ps = Inr o'"
    "main_recv (Rx_pkt pkt fr) v = Inr v0" "follows v0 (length (sessions v)) [] v1 k"
    "p = path_append (get_root_dir st) fname" "fs_stat (shared_fs v1) p = Inr None" "fs_creatable (shared_fs v1) (until_zero p)"
    "length fl < 2 ^ 61" "windowsize_opt o' \<le> 1" "bs = unat (word_of_int (blksize o') :: u16)" "0 < bs" "bs \<le> 65531"
    "timeout o' < 2 ^ 31 - 1" "0 \<le> e_socket e0" "e_bind e0 \<noteq> - 1" "srv_act (Session_thread k e0) v1 v2"
    "length es0 = (if was_set_any o' then 1 else 2)"
    "delivers (client_addr v0) (timeout o') bs fl (e_time (last es0)) 1 (last_block bs fl) es"
    "follows v2 k (es0 @ es) v3 j" "srv_act (Session_exit j True) v3 v4"
  shows "is_finished (sess (t_run (sessions v3 ! j))) \<and> \<not> was_error (sess (t_run (sessions v3 ! j))) \<and>
    sent (t_run (sessions v3 ! j)) = (if was_set_any o' then oack_pkt o' else ack_pkt 0) #
      map (\<lambda>k. ack_pkt (of_nat k)) [1..<Suc (last_block bs fl)] \<and>
    shared_fs v4 = fs_set (shared_fs v3) p fl"
proof -
  obtain s b n r where s: "prepare (session_new st) (client_addr v0) b n = Inr (True, s)" "opts s = o'"
    "o_request_type o' = (if (2 :: nat) = 1 then srv_read else srv_write)" "o_filename o' = fname" "what_ok (shared_fs v1)"
    and l: "run_loop (e0 # es0 @ es) (run_start (shared_fs v1) s) = Inr r"
    and e: "t_run (sessions v3 ! j) = r\<lparr>world := world (t_run (sessions v3 ! j))\<rparr>" (is "?t = _")
    by (rule request_followed [OF assms(1-4) _ assms(5-10) _ assms(12,13,25,28)]) (use assms(11) in simp_all)
  have k: "o_request_type (opts s) = srv_write" "p = path_append (get_root_dir st) (o_filename (opts s))"
    using s(2-4) assms(14) by simp_all
  have b: "windowsize s = 1" "bs = unat (block_size s)" using assms(18,19) s(2) by (simp_all add: windowsize_def block_size_def)
  obtain q where q: "run_loop (e0 # es0 @ es) (run_start (shared_fs v1) s) = Inr q" "is_finished (sess q)" "\<not> was_error (sess q)" "has_sink st p fl q"
    "sent q = (if was_set_any (opts s) then oack_pkt (opts s) else ack_pkt 0) #
       map (\<lambda>k. ack_pkt (of_nat k)) [1..<Suc (last_block bs fl)]"
    by (rule upload_loop [OF s(5,1) k assms(15,16,17) b assms(20,21) _ assms(23,24)]) (use assms(22,26,27) s(2) in simp_all)
  have t: "sess ?t = sess q" "sent ?t = sent q" using q(1) l by (subst e, simp)+
  have "has_sink st p fl (?t\<lparr>world := shared_fs v3\<rparr>)" using q(4) t(1) by (simp add: has_sink_def)
  from run_end_sink [OF this] obtain q' c where "run_end True (?t\<lparr>world := shared_fs v3\<rparr>) = Inr (q', c)" "world q' = fs_set (shared_fs v3) p fl"
    by auto
  then have "shared_fs v4 = fs_set (shared_fs v3) p fl"
    using assms(29) by (auto elim!: srv_act_exitE simp: thread_end_def set_thread_def)
  then show ?thesis using q(2,3,5) t s(2) by (simp del: upt_Suc)
qed

text \<open>The example: one short block, then the thread of the session ends.\<close>

lemma demo_stored:
  assumes "sessions v = [\<lparr>t_run = run_start demo_read_fs s, t_ended = False\<rparr>]" "shared_fs v = demo_read_fs"
    "opts s = opts (demo_prepared demo_write_request)" "prepare (session_new demo_sett) (cl_addr s) b n = Inr (True, s)"
    "a_bytes (cl_addr s) = a_bytes demo_client"
  shows "\<exists>v2 v3 v4. srv_act (Session_thread 0 (quiet 0)) v v2 \<and>
    follows v2 0 ([quiet 1] @ [from_client 2 (data_pkt 1 ''z''), quiet 2]) v3 0 \<and> srv_act (Session_exit 0 True) v3 v4"
proof -
  have o: "o_request_type (opts s) = srv_write" "''/r/new.bin'' = path_append (get_root_dir demo_sett) (o_filename (opts s))"
    "windowsize s = 1" "unat (block_size s) = 2" "timeout (opts s) = 10" "was_set_any (opts s)"
    using demo_new_file(1) by (simp_all add: assms(3) demo_write_opts opt_eval windowsize_def block_size_def)
  obtain d where d: "dm_init demo_read_fs demo_sett dmf_new (opts s) = Inr (True, None, d, fs_set demo_read_fs ''/r/new.bin'' [])"
    "dm_writable d" "dm_stored d = []" "filename d = ''/r/new.bin''" "dm_settings d = demo_sett"
    using dm_init_created [OF o(1,2) demo_new_file(2,3)] by blast
  have q: "0 \<le> e_socket (quiet 0)" "e_bind (quiet 0) \<noteq> - 1" by (simp_all add: quiet_def)
  obtain r0 where r0: "run_step (quiet 0) (run_start demo_read_fs s) = Inr r0" "run_inv r0" "stat (sess r0) = ack_options"
    "\<not> was_error (sess r0)" "opts (sess r0) = opts s" "block_size (sess r0) = block_size s" "windowsize (sess r0) = windowsize s"
    "cl_addr (sess r0) = cl_addr s" "file_man (sess r0) = Some d" "\<not> last_blk_processed r0" "\<not> is_finished (sess (run_start demo_read_fs s))"
    by (rule session_begins [OF what_ok_demo assms(4) q d(1)])
  have u0: "up r0" "has_sink demo_sett ''/r/new.bin'' [] r0" using r0 d o by (simp_all add: up_def has_sink_def)
  obtain r1 where r1: "run_loop [quiet 1] r0 = Inr r1" "up r1" "has_sink demo_sett ''/r/new.bin'' [] r1" "stat (sess r1) = data_rx"
    "stage (sess r1) = 1"
    using loop_greeting [OF u0(1) r0(3) _ r0(10) u0(2), of "[quiet 1]"] r0(5) o(1,6) by auto
  have k1: "opts (sess r1) = opts s" "cl_addr (sess r1) = cl_addr s"
    using reach_kept [OF run_loop_reach [OF r1(1)] r0(2)] r0(5,8) by auto
  have g: "gives (cl_addr (sess r1)) (data_pkt (of_nat 1) ''z'') (from_client 2 (data_pkt 1 ''z''))" "e_dev (from_client 2 (data_pkt 1 ''z''))"
    using k1(2) assms(5) by (simp_all add: gives_def from_client_def quiet_def demo_client_rx)
  obtain r2 where r2: "run_step (from_client 2 (data_pkt 1 ''z'')) r1 = Inr r2" "sbuf_ok (local_buf r2)" "stat (sess r2) = ack_tx"
    "stage (sess r2) = 1" "last_blk_processed r2" "has_sink demo_sett ''/r/new.bin'' ''z'' r2"
    using step_take_data [OF r1(2,4,5) _ _ refl g _ r1(3)] r1(5) block_size_opts [OF k1(1)] o(4) by (fastforce simp: has_sink_def)
  obtain r3 where r3: "run_step (quiet 2) r2 = Inr r3" "has_sink demo_sett ''/r/new.bin'' ''z'' r3" "stat (sess r3) = finish"
    using step_send_ack [OF r2(2,3), of "quiet 2"] r2(4-6) by (fastforce simp: has_sink_def)
  have nf: "\<not> is_finished (sess r0)" "\<not> is_finished (sess r1)" "\<not> is_finished (sess r2)" "is_finished (sess r3)"
    using r0(3) r1(4) r2(3) r3(3) by (simp_all add: is_finished_def)
  obtain v2 where v2: "srv_act (Session_thread 0 (quiet 0)) v v2" "0 < length (sessions v2)" "t_run (sessions v2 ! 0) = r0"
    "shared_fs v2 = world r0" "\<not> t_ended (sessions v2 ! 0)"
    using act_step [of 0 v "quiet 0" r0] assms(1,2) r0(1,11) by (auto simp: run_start_def)
  have l: "run_loop ([quiet 1] @ [from_client 2 (data_pkt 1 ''z'')]) r0 = Inr r2" unfolding run_loop_append r1(1) using r2(1) nf(2) by simp
  obtain v3 where v3: "follows v2 0 ([quiet 1] @ [from_client 2 (data_pkt 1 ''z'')]) v3 0" "0 < length (sessions v3)"
    "t_run (sessions v3 ! 0) = r2" "shared_fs v3 = world r2" "\<not> t_ended (sessions v3 ! 0)"
    using follow_alone [of "[quiet 1] @ [from_client 2 (data_pkt 1 ''z'')]" v2 0 r2] l nf(3) v2(2-5) by blast
  obtain v4 where v4: "follows v2 0 (([quiet 1] @ [from_client 2 (data_pkt 1 ''z'')]) @ [quiet 2]) v4 0" "0 < length (sessions v4)"
    "t_run (sessions v4 ! 0) = r3" "\<not> t_ended (sessions v4 ! 0)"
    using follow_step [OF v3(1,2), of "quiet 2" r3] v3(3-5) r3(1) nf(3) by auto
  obtain c where "run_end True (r3\<lparr>world := shared_fs v4\<rparr>) = Inr c"
    using run_end_sink [of demo_sett "''/r/new.bin''" "''z''" "r3\<lparr>world := shared_fs v4\<rparr>"] r3(2) by (auto simp: has_sink_def)
  then obtain tf where "thread_end True (shared_fs v4) (sessions v4 ! 0) = Inr tf" using v4(3) by (cases c) (simp add: thread_end_def)
  from act_exit [OF v4(2) _ v4(4) this] have "srv_act (Session_exit 0 True) v4 (set_thread v4 0 tf)" using v4(3) nf(4) by simp
  then show ?thesis using v2(1) v4(1) by auto
qed

theorem server_stores_file_witness:
  "\<exists>(v3 :: srv) (v4 :: srv). sent (t_run (sessions v3 ! 0)) = [oack_pkt (opts (demo_prepared demo_write_request)), ack_pkt 1] \<and>
     shared_fs v4 = fs_set (shared_fs v3) ''/r/new.bin'' ''z''"
proof -
  let ?o = "opts (demo_prepared demo_write_request)" and ?ps = "[(''blksize'', ''2'')]"
  let ?p = "request_bytes 2 ''new.bin'' ''octet'' ?ps"
  have x: "text_ok ''new.bin''" "pairs_ok ?ps" "9 \<le> length ?p" "length ?p \<le> 0xFFFF"
    by (simp_all add: text_ok_def pairs_ok_def request_bytes_def)
  have ao: "apply_options (options_new\<lparr>o_request_type := srv_write, o_filename := ''new.bin'', o_transfer_mode := mode_of (do_lower ''octet'')\<rparr>) ?ps = Inr ?o"
    unfolding demo_write_opts by code_simp
  have ao': "apply_options (options_new\<lparr>o_request_type := (if (2 :: nat) = 1 then srv_read else srv_write), o_filename := ''new.bin'',
      o_transfer_mode := mode_of (do_lower ''octet'')\<rparr>) ?ps = Inr ?o" using ao by simp
  obtain v s b n where v: "main_recv (Rx_pkt ?p (a_bytes demo_client)) demo_server = Inr v"
    "sessions v = [\<lparr>t_run = run_start demo_read_fs s, t_ended = False\<rparr>]" "shared_fs v = demo_read_fs"
    "opts s = ?o" "prepare (session_new demo_sett) (cl_addr s) b n = Inr (True, s)"
    "a_bytes (cl_addr s) = a_bytes demo_client" "client_addr v = cl_addr s"
    using demo_requested [OF refl _ x(1-4) ao'] by blast
  obtain v2 v3 v4 where f: "srv_act (Session_thread 0 (quiet 0)) v v2"
    "follows v2 0 ([quiet 1] @ [from_client 2 (data_pkt 1 ''z''), quiet 2]) v3 0" "srv_act (Session_exit 0 True) v3 v4"
    using demo_stored [OF v(2-6)] by blast
  have o: "windowsize_opt ?o \<le> 1" "2 = unat (word_of_int (blksize ?o) :: u16)" "timeout ?o < 2 ^ 31 - 1" "timeout ?o = 10"
    "was_set_any ?o" "length [quiet 1] = (if was_set_any ?o then 1 else 2)" by (simp_all add: demo_write_opts opt_eval)
  have l: "length (a_bytes demo_client) \<le> 30" "last_block 2 ''z'' = 1" "block 2 ''z'' 1 = ''z''" by code_simp+
  have st: "follows v (length (sessions demo_server)) [] v 0" using follow_start [of v 0] demo_server_ok(3) by simp
  have c: "fs_stat (shared_fs v) ''/r/new.bin'' = Inr None" "fs_creatable (shared_fs v) (until_zero ''/r/new.bin'')"
    using demo_new_file(2,3) v(3) by simp_all
  have "delivers (client_addr v) 10 2 ''z'' (e_time (last [quiet 1])) 1 1 ([] @ [from_client 2 (data_pkt 1 ''z''), quiet 2])"
    by (rule delivers_last) (use v(6,7) l(3) in \<open>simp_all add: waits_def gives_def from_client_def quiet_def demo_client_rx\<close>)
  then have dl: "delivers (client_addr v) (timeout ?o) 2 ''z'' (e_time (last [quiet 1])) 1 (last_block 2 ''z'') [from_client 2 (data_pkt 1 ''z''), quiet 2]"
    unfolding l(2) o(4) by simp
  have n: "length ''z'' < 2 ^ 61" "0 < (2 :: nat)" "(2 :: nat) \<le> 65531" "0 \<le> e_socket (quiet 0)" "e_bind (quiet 0) \<noteq> - 1"
    by (simp_all add: quiet_def)
  have r: "srv_reach (main_enter 3 0 (srv_new demo_sett demo_read_fs)) demo_server" unfolding demo_server_def by (rule srv_refl)
  show ?thesis
    using server_stores_file [OF what_ok_demo r demo_server_ok(2) refl x(1) demo_texts(2) x(2-4) l(1) ao v(1) st
        demo_new_file(1) [symmetric] c n(1) o(1,2) n(2,3) o(3) n(4,5) f(1) o(6) dl f(2,3)] o(5) l(2) by auto
qed

end
